theory Spec2Isabelle
  imports Complex_Main "HOL-Library.AList"
begin

section \<open>JavaScript values\<close>

text \<open>
  The contract document, the request body and every schema are JSON documents held as
  JavaScript values. A property key is either an array index (a canonical decimal
  numeral, such as the status-code keys of \<open>responses\<close>) or any other string. An object
  is the list of its own enumerable entries in the order \<open>Object.keys\<close> reports them.
  In this first model the documents are trees: a value does not tell whether it is held
  at another place as well. The last sections model the contract a second time, as
  objects in a store, for what depends on one object being held at several places.
  Inherited (prototype) properties are not part of the model.
\<close>

datatype key = Idx nat | Name string

datatype jsval =
    JUndefined
  | JNull
  | JBool bool
  | JNum rat
  | JStr string
  | JArr "jsval list"
  | JObj "(key \<times> jsval) list"

text \<open>
  Values that are thrown. \<open>TypeError\<close> is what the runtime raises for a property read on
  \<open>null\<close> or \<open>undefined\<close>, for \<open>Buffer.concat\<close> on a list holding a non-buffer and
  for an unknown encoding. \<open>RangeError\<close> is what it raises for an array of an invalid
  length. \<open>CompileError\<close> is what the schema engine raises for a document it cannot
  compile. \<open>SyntaxError\<close> is the error of \<open>JSON.parse\<close> after the response stage has
  set its \<open>failedValidation\<close> and \<open>message\<close> fields.
\<close>

datatype error =
    TypeError
  | RangeError
  | CompileError
  | SyntaxError (failedValidation: bool) (message: string)

text \<open>The conversion to boolean used by \<open>if\<close>, \<open>!\<close>, \<open>&&\<close> and \<open>||\<close>.\<close>

fun truthy :: "jsval \<Rightarrow> bool" where
  "truthy JUndefined = False"
| "truthy JNull = False"
| "truthy (JBool b) = b"
| "truthy (JNum n) = (n \<noteq> 0)"
| "truthy (JStr s) = (s \<noteq> [])"
| "truthy (JArr xs) = True"
| "truthy (JObj ps) = True"

text \<open>
  The property read \<open>obj[k]\<close>. It throws on \<open>null\<close> and \<open>undefined\<close>; a missing
  property reads as \<open>undefined\<close>; arrays and strings have their elements and \<open>length\<close>.
\<close>

fun get_prop :: "jsval \<Rightarrow> key \<Rightarrow> error + jsval" where
  "get_prop JUndefined k = Inl TypeError"
| "get_prop JNull k = Inl TypeError"
| "get_prop (JBool b) k = Inr JUndefined"
| "get_prop (JNum n) k = Inr JUndefined"
| "get_prop (JStr s) (Idx i) = Inr (if i < length s then JStr [s ! i] else JUndefined)"
| "get_prop (JStr s) (Name n) =
     Inr (if n = ''length'' then JNum (of_nat (length s)) else JUndefined)"
| "get_prop (JArr xs) (Idx i) = Inr (if i < length xs then xs ! i else JUndefined)"
| "get_prop (JArr xs) (Name n) =
     Inr (if n = ''length'' then JNum (of_nat (length xs)) else JUndefined)"
| "get_prop (JObj ps) k = Inr (case map_of ps k of None \<Rightarrow> JUndefined | Some v \<Rightarrow> v)"

text \<open>
  The assignment \<open>obj[k] = v\<close>, as the object after it. On an object it replaces the
  entry (or adds one); on an array it replaces an existing element; on a primitive it
  has no effect (the module is not in strict mode).
\<close>

fun set_prop :: "jsval \<Rightarrow> key \<Rightarrow> jsval \<Rightarrow> jsval" where
  "set_prop (JObj ps) k v = JObj (AList.update k v ps)"
| "set_prop (JArr xs) (Idx i) v = (if i < length xs then JArr (xs[i := v]) else JArr xs)"
| "set_prop obj k v = obj"

text \<open>\<open>Object.keys(obj)\<close>.\<close>

fun own_keys :: "jsval \<Rightarrow> key list" where
  "own_keys (JObj ps) = map fst ps"
| "own_keys (JArr xs) = map Idx [0..<length xs]"
| "own_keys (JStr s) = map Idx [0..<length s]"
| "own_keys v = []"

text \<open>
  \<open>x > 0\<close> for the \<open>length\<close> of a parameter list. For a number it is the comparison;
  \<open>undefined\<close> converts to NaN and \<open>null\<close> to 0, a boolean to 0 or 1. The conversion
  of a string, array or object to a number (reached only when \<open>parameters\<close> is an
  object carrying its own \<open>length\<close> entry of such a kind) is the parameter \<open>toNumber\<close>.
\<close>

fun greater_zero :: "(jsval \<Rightarrow> rat option) \<Rightarrow> jsval \<Rightarrow> bool" where
  "greater_zero toNumber JUndefined = False"
| "greater_zero toNumber JNull = False"
| "greater_zero toNumber (JBool b) = b"
| "greater_zero toNumber (JNum n) = (0 < n)"
| "greater_zero toNumber v = (case toNumber v of None \<Rightarrow> False | Some n \<Rightarrow> 0 < n)"

text \<open>\<open>String.prototype.toLowerCase\<close> on the ASCII letters of an HTTP method name.\<close>

definition lower_char :: "char \<Rightarrow> char" where
  "lower_char c =
     (case map_of (zip ''ABCDEFGHIJKLMNOPQRSTUVWXYZ'' ''abcdefghijklmnopqrstuvwxyz'') c of
        None \<Rightarrow> c
      | Some d \<Rightarrow> d)"

definition toLowerCase :: "string \<Rightarrow> string" where
  "toLowerCase s = map lower_char s"

text \<open>The decimal numeral of an index key, for a key used as a path template.\<close>

fun digits :: "nat \<Rightarrow> string" where
  "digits n =
     (if n < 10 then [''0123456789'' ! n]
      else digits (n div 10) @ [''0123456789'' ! (n mod 10)])"

fun key_string :: "key \<Rightarrow> string" where
  "key_string (Idx i) = digits i"
| "key_string (Name n) = n"

section \<open>External collaborators\<close>

text \<open>
  The libraries the module calls are parameters of the model:
  \<^item> \<open>parseUrl_pathname u\<close> is \<open>url.parse(u).pathname\<close>, \<open>None\<close> for \<open>null\<close>;
  \<^item> \<open>pathToRegexp t\<close> is the compiled matcher of the template \<open>t\<close>, as the predicate
    \<open>url.match(regexp)\<close> is truthy (a template that does not compile ends \<open>init\<close> and
    is left out);
  \<^item> \<open>ajv_compile s\<close> is \<open>ajv.compile(s)\<close>: \<open>None\<close> when it throws, otherwise the
    validating function, which returns its verdict and leaves its error list;
  \<^item> \<open>JSON_parse\<close> is \<open>None\<close> when \<open>JSON.parse\<close> throws;
  \<^item> \<open>JSON_stringify v\<close> is the value \<open>JSON.stringify(v)\<close> returns (a string, or
    \<open>undefined\<close>);
  \<^item> \<open>new_Buffer s\<close> is the byte content of \<open>new Buffer(s)\<close>;
  \<^item> \<open>Buffer_toString b enc\<close> is \<open>b.toString(enc)\<close>, \<open>None\<close> when the encoding is
    unknown and the call throws;
  \<^item> \<open>toNumber\<close> is the numeric conversion described above.
\<close>

type_synonym bytes = string
type_synonym encoding = "string option"
type_synonym validator = "jsval \<Rightarrow> bool \<times> jsval"

record externals =
  parseUrl_pathname :: "string \<Rightarrow> string option"
  pathToRegexp :: "string \<Rightarrow> string \<Rightarrow> bool"
  ajv_compile :: "jsval \<Rightarrow> validator option"
  JSON_parse :: "string \<Rightarrow> jsval option"
  JSON_stringify :: "jsval \<Rightarrow> jsval"
  new_Buffer :: "string \<Rightarrow> bytes"
  Buffer_toString :: "bytes \<Rightarrow> encoding \<Rightarrow> string option"
  toNumber :: "jsval \<Rightarrow> rat option"

section \<open>Module state\<close>

text \<open>
  \<open>options\<close> after \<open>_.defaults\<close>: each field is the truthiness of the option. The
  contract itself (\<open>options.schema\<close>) is read only by \<open>init\<close>; afterwards the module
  reaches it through the \<open>definition\<close> references of the path objects.
\<close>

record options =
  validateRequestOpt :: bool
  validateResponseOpt :: bool
  allowNullable :: bool
  requestValidationFn :: bool
  responseValidationFn :: bool

text \<open>
  An element of \<open>pathObjects\<close>. The fields \<open>definition\<close> and \<open>pathDef\<close> of the source
  hold the same object, \<open>schema.paths[path]\<close>; it is kept once, as \<open>definition'\<close>, and is
  the model's copy of that part of the contract. The field \<open>original\<close> is the constant
  pair \<open>['paths', path]\<close> and is never read.
\<close>

record pathObject =
  definition' :: jsval
  regexp :: "string \<Rightarrow> bool"
  path :: string

record request = method' :: string
  originalUrl :: string
  body :: jsval

text \<open>
  \<open>path.replace(/\{/g, ':').replace(/\}/g, '')\<close>: every opening brace becomes a colon,
  every closing brace is dropped.
\<close>

definition template_of :: "string \<Rightarrow> string" where
  "template_of p =
     filter (\<lambda>c. c \<noteq> CHR ''}'') (map (\<lambda>c. if c = CHR ''{'' then CHR '':'' else c) p)"

text \<open>\<open>buildPathObjects\<close>, on the entries of the \<open>paths\<close> object in their order.\<close>

definition buildPathObjects :: "externals \<Rightarrow> (key \<times> jsval) list \<Rightarrow> pathObject list" where
  "buildPathObjects ext paths =
     map (\<lambda>(k, pathDef).
            \<lparr> definition' = pathDef,
              regexp = pathToRegexp ext (template_of (key_string k)),
              path = key_string k \<rparr>) paths"

section \<open>Path resolution\<close>

text \<open>
  \<open>matchUrlWithSchema\<close>. The callback of \<open>filter\<close> calls \<open>url.match\<close>, which throws
  when the pathname is \<open>null\<close>; with no path object the callback never runs.
\<close>

definition matchUrlWithSchema :: "externals \<Rightarrow> pathObject list \<Rightarrow> string \<Rightarrow> error + jsval" where
  "matchUrlWithSchema ext pathObjects reqUrl =
     (case parseUrl_pathname ext reqUrl of
        None \<Rightarrow> (if pathObjects = [] then Inr JNull else Inl TypeError)
      | Some url \<Rightarrow>
          (case filter (\<lambda>obj. regexp obj url) pathObjects of
             [] \<Rightarrow> Inr JNull
           | obj # _ \<Rightarrow> Inr (definition' obj)))"

section \<open>Nullable decoration\<close>

text \<open>
  The body of the \<open>forEach\<close> in \<open>decorateWithNullable\<close>, over the keys that
  \<open>Object.keys(schema.properties)\<close> returned. The first component is the
  \<open>properties\<close> object after the assignments made so far; the second is the error
  thrown, if any (\<open>schema.properties[prop]['x-nullable']\<close> throws when the property is
  \<open>null\<close>).
\<close>

definition nullable_choice :: "jsval \<Rightarrow> jsval" where
  "nullable_choice p =
     JObj [(Name ''oneOf'', JArr [p, JObj [(Name ''type'', JStr ''null'')]])]"

fun decorate_keys :: "key list \<Rightarrow> jsval \<Rightarrow> jsval \<times> error option" where
  "decorate_keys [] props = (props, None)"
| "decorate_keys (prop # rest) props =
     (case get_prop props prop of
        Inl e \<Rightarrow> (props, Some e)
      | Inr p \<Rightarrow>
          (case get_prop p (Name ''x-nullable'') of
             Inl e \<Rightarrow> (props, Some e)
           | Inr flag \<Rightarrow>
               decorate_keys rest
                 (if truthy flag then set_prop props prop (nullable_choice p) else props)))"

text \<open>
  \<open>decorateWithNullable\<close> mutates its argument. The model returns the schema object as
  it is after the call, and the error thrown, if any; when nothing is thrown the
  function returns that same object.
\<close>

definition decorateWithNullable :: "jsval \<Rightarrow> jsval \<times> error option" where
  "decorateWithNullable schema =
     (if truthy schema then
        (case get_prop schema (Name ''properties'') of
           Inl e \<Rightarrow> (schema, Some e)
         | Inr props \<Rightarrow>
             if truthy props then
               (case decorate_keys (own_keys props) props of
                  (props', r) \<Rightarrow> (set_prop schema (Name ''properties'') props', r))
             else (schema, None))
      else (schema, None))"

section \<open>Schema resolution\<close>

text \<open>
  A resolved schema is a reference into the contract. The model carries, next to the
  value, the key path inside the matched path definition at which the object lives
  (\<open>None\<close> when the result is the initial \<open>null\<close>), so that the in-place decoration can
  be written back to the contract.
\<close>

fun lookup_path :: "jsval \<Rightarrow> key list \<Rightarrow> error + jsval" where
  "lookup_path obj [] = Inr obj"
| "lookup_path obj (k # ks) =
     (case get_prop obj k of Inl e \<Rightarrow> Inl e | Inr child \<Rightarrow> lookup_path child ks)"

fun assign_path :: "jsval \<Rightarrow> key list \<Rightarrow> jsval \<Rightarrow> jsval" where
  "assign_path obj [] v = v"
| "assign_path obj (k # ks) v =
     (case get_prop obj k of
        Inl e \<Rightarrow> obj
      | Inr child \<Rightarrow> set_prop obj k (assign_path child ks v))"

fun update_first :: "('a \<Rightarrow> bool) \<Rightarrow> ('a \<Rightarrow> 'a) \<Rightarrow> 'a list \<Rightarrow> 'a list" where
  "update_first P f [] = []"
| "update_first P f (x # xs) = (if P x then f x # xs else x # update_first P f xs)"

text \<open>
  The contract after the object at \<open>loc\<close> in the definition matched by \<open>reqUrl\<close> has
  become \<open>v\<close>. This is the effect of the assignments of \<open>decorateWithNullable\<close> on
  the place the schema was found at; what they do to an object that other places hold
  as well is the subject of the store model.
\<close>

definition store_schema ::
  "externals \<Rightarrow> pathObject list \<Rightarrow> string \<Rightarrow> key list \<Rightarrow> jsval \<Rightarrow> pathObject list" where
  "store_schema ext pathObjects reqUrl loc v =
     (case parseUrl_pathname ext reqUrl of
        None \<Rightarrow> pathObjects
      | Some url \<Rightarrow>
          update_first (\<lambda>obj. regexp obj url)
            (\<lambda>obj. obj\<lparr>definition' := assign_path (definition' obj) loc v\<rparr>) pathObjects)"

text \<open>
  The closing lines of both resolvers: \<open>if (options.allowNullable) schema =
  decorateWithNullable(schema); return schema\<close>. The result is the module state after
  the call and the value returned or the error thrown. \<open>decorateWithNullable\<close> assigns
  only under \<open>if (schema && schema.properties)\<close>, so a falsy schema leaves the contract
  as it is.
\<close>

definition finish_resolve ::
  "externals \<Rightarrow> options \<Rightarrow> pathObject list \<Rightarrow> string \<Rightarrow> jsval \<times> key list option \<Rightarrow>
   pathObject list \<times> (error + jsval)" where
  "finish_resolve ext opts pathObjects reqUrl found =
     (case found of
        (schema, loc) \<Rightarrow>
          if allowNullable opts then
            (case decorateWithNullable schema of
               (schema', r) \<Rightarrow>
                 ((case loc of
                     None \<Rightarrow> pathObjects
                   | Some l \<Rightarrow>
                       if truthy schema then store_schema ext pathObjects reqUrl l schema'
                       else pathObjects),
                  (case r of None \<Rightarrow> Inr schema' | Some e \<Rightarrow> Inl e)))
          else (pathObjects, Inr schema))"

text \<open>
  Lines 48 to 56 of \<open>resolveResponseModelSchema\<close>: \<open>pathObj[method].responses\<close> is read
  without a test of \<open>pathObj[method]\<close>, and \<open>responseSchemas[code]\<close> without a test of
  \<open>responseSchemas\<close>. The status code is \<open>res.statusCode || 200\<close>.
\<close>

definition status_or_200 :: "nat option \<Rightarrow> nat" where
  "status_or_200 sc = (case sc of None \<Rightarrow> 200 | Some c \<Rightarrow> if c = 0 then 200 else c)"

definition response_schema ::
  "jsval \<Rightarrow> string \<Rightarrow> nat option \<Rightarrow> error + (jsval \<times> key list option)" where
  "response_schema pathObj m sc =
     (if truthy pathObj then
        (case get_prop pathObj (Name m) of
           Inl e \<Rightarrow> Inl e
         | Inr entry \<Rightarrow>
             (case get_prop entry (Name ''responses'') of
                Inl e \<Rightarrow> Inl e
              | Inr responseSchemas \<Rightarrow>
                  (case get_prop responseSchemas (Idx (status_or_200 sc)) of
                     Inl e \<Rightarrow> Inl e
                   | Inr descriptor \<Rightarrow>
                       if truthy descriptor then
                         (case get_prop descriptor (Name ''schema'') of
                            Inl e \<Rightarrow> Inl e
                          | Inr schema \<Rightarrow>
                              Inr (schema,
                                   Some [Name m, Name ''responses'',
                                         Idx (status_or_200 sc), Name ''schema'']))
                       else Inr (JNull, None))))
      else Inr (JNull, None))"

definition resolveResponseModelSchema ::
  "externals \<Rightarrow> options \<Rightarrow> pathObject list \<Rightarrow> request \<Rightarrow> nat option \<Rightarrow>
   pathObject list \<times> (error + jsval)" where
  "resolveResponseModelSchema ext opts pathObjects req sc =
     (case matchUrlWithSchema ext pathObjects (originalUrl req) of
        Inl e \<Rightarrow> (pathObjects, Inl e)
      | Inr pathObj \<Rightarrow>
          (case response_schema pathObj (toLowerCase (method' req)) sc of
             Inl e \<Rightarrow> (pathObjects, Inl e)
           | Inr found \<Rightarrow> finish_resolve ext opts pathObjects (originalUrl req) found))"

text \<open>
  Lines 66 to 76 of \<open>resolveRequestModelSchema\<close>: here \<open>pathObj[method]\<close> is tested
  before \<open>parameters\<close> is read, and \<open>requestSchemas\<close> before its \<open>length\<close>.
\<close>

definition request_schema ::
  "externals \<Rightarrow> jsval \<Rightarrow> string \<Rightarrow> error + (jsval \<times> key list option)" where
  "request_schema ext pathObj m =
     (if truthy pathObj then
        (case get_prop pathObj (Name m) of
           Inl e \<Rightarrow> Inl e
         | Inr entry \<Rightarrow>
             (case (if truthy entry then get_prop entry (Name ''parameters'') else Inr JNull) of
                Inl e \<Rightarrow> Inl e
              | Inr requestSchemas \<Rightarrow>
                  if truthy requestSchemas \<and>
                     (case get_prop requestSchemas (Name ''length'') of
                        Inl e \<Rightarrow> False
                      | Inr len \<Rightarrow> greater_zero (toNumber ext) len)
                  then
                    (case get_prop requestSchemas (Idx 0) of
                       Inl e \<Rightarrow> Inl e
                     | Inr first \<Rightarrow>
                         (case get_prop first (Name ''schema'') of
                            Inl e \<Rightarrow> Inl e
                          | Inr schema \<Rightarrow>
                              Inr (schema,
                                   Some [Name m, Name ''parameters'', Idx 0, Name ''schema''])))
                  else Inr (JNull, None)))
      else Inr (JNull, None))"

definition resolveRequestModelSchema ::
  "externals \<Rightarrow> options \<Rightarrow> pathObject list \<Rightarrow> request \<Rightarrow>
   pathObject list \<times> (error + jsval)" where
  "resolveRequestModelSchema ext opts pathObjects req =
     (case matchUrlWithSchema ext pathObjects (originalUrl req) of
        Inl e \<Rightarrow> (pathObjects, Inl e)
      | Inr pathObj \<Rightarrow>
          (case request_schema ext pathObj (toLowerCase (method' req)) of
             Inl e \<Rightarrow> (pathObjects, Inl e)
           | Inr found \<Rightarrow> finish_resolve ext opts pathObjects (originalUrl req) found))"

section \<open>Request validation stage\<close>

text \<open>
  What the stages do to the outside is recorded as a list of events, in order:
  \<open>Next None\<close> is \<open>next()\<close>, \<open>Next (Some err)\<close> is \<open>next(err)\<close>, \<open>Status\<close> and
  \<open>Json\<close> are \<open>res.status\<close> and \<open>res.json\<close>, \<open>End\<close> is a call of the original
  \<open>res.end\<close>, and the last two are calls of the configured callbacks with their three
  arguments. Calls of \<open>debug\<close> leave no event.
\<close>

text \<open>
  What a handler may pass to \<open>res.write\<close> and \<open>res.end\<close>: a \<open>Buffer\<close>, a \<open>String\<close>
  object, or any other value; a primitive string is \<open>Plain (JStr s)\<close> and a missing
  argument is \<open>Plain JUndefined\<close>.
\<close>

datatype data = Buffer bytes | StringObject string | Plain jsval

datatype event =
    Next "jsval option"
  | Status nat
  | Json jsval
  | End data encoding
  | RequestValidationFn request jsval jsval
  | ResponseValidationFn request jsval jsval

text \<open>
  The response object: its status code (\<open>None\<close> for \<open>undefined\<close>) and which functions
  \<open>res.write\<close> and \<open>res.end\<close> currently are.
\<close>

datatype writer = Original | Interceptor

record response =
  statusCode :: "nat option"
  write_op :: writer
  end_op :: writer

definition failure_message :: "request \<Rightarrow> jsval" where
  "failure_message req =
     JObj [(Name ''message'',
            JStr (''Response schema validation failed for '' @ method' req @ originalUrl req))]"

text \<open>
  \<open>validateRequest\<close>. The result is the module state and the response object after the
  call, the events in order, and the error thrown, if any.
\<close>

definition validateRequest ::
  "externals \<Rightarrow> options \<Rightarrow> pathObject list \<Rightarrow> request \<Rightarrow> response \<Rightarrow>
   pathObject list \<times> response \<times> event list \<times> error option" where
  "validateRequest ext opts pathObjects req res =
     (case resolveRequestModelSchema ext opts pathObjects req of
        (pathObjects', Inl e) \<Rightarrow> (pathObjects', res, [], Some e)
      | (pathObjects', Inr requestSchema) \<Rightarrow>
          if \<not> truthy requestSchema then (pathObjects', res, [Next None], None)
          else
            (case ajv_compile ext requestSchema of
               None \<Rightarrow> (pathObjects', res, [], Some CompileError)
             | Some validator \<Rightarrow>
                 (case validator (body req) of
                    (validation, errors) \<Rightarrow>
                      if \<not> validation then
                        if requestValidationFn opts then
                          (pathObjects', res,
                           [RequestValidationFn req (body req) errors, Next None], None)
                        else
                          (pathObjects', res\<lparr>statusCode := Some 400\<rparr>,
                           [Status 400, Json (failure_message req)], None)
                      else (pathObjects', res, [Next None], None))))"

section \<open>Response capture and validation stage\<close>

definition is_string :: "data \<Rightarrow> bool" where
  "is_string d = (case d of StringObject s \<Rightarrow> True | Plain (JStr s) \<Rightarrow> True | _ \<Rightarrow> False)"

definition data_truthy :: "data \<Rightarrow> bool" where
  "data_truthy d = (case d of Plain v \<Rightarrow> truthy v | _ \<Rightarrow> True)"

text \<open>\<open>sendData\<close>, called after the original \<open>res.end\<close> has been put back.\<close>

definition sendData :: "externals \<Rightarrow> data \<Rightarrow> encoding \<Rightarrow> event list" where
  "sendData ext d enc =
     [End (case d of
             Buffer b \<Rightarrow> d
           | StringObject s \<Rightarrow> d
           | Plain v \<Rightarrow> (if is_string d then d else Plain (JSON_stringify ext v))) enc]"

text \<open>
  The variables the two interceptors close over. \<open>val\<close> is declared without a value
  and is assigned only by the \<open>end\<close> interceptor.
\<close>

record capture =
  origEnd :: writer
  origWrite :: writer
  writtenData :: "data list"

text \<open>\<open>validateResponse\<close>: it saves the two functions, installs the interceptors and
  calls \<open>next()\<close>.\<close>

definition validateResponse :: "response \<Rightarrow> response \<times> capture \<times> event list" where
  "validateResponse res =
     (res\<lparr>write_op := Interceptor, end_op := Interceptor\<rparr>,
      \<lparr>origEnd = end_op res, origWrite = write_op res, writtenData = []\<rparr>,
      [Next None])"

text \<open>The \<open>write\<close> interceptor.\<close>

definition write_hook :: "capture \<Rightarrow> data \<Rightarrow> capture" where
  "write_hook cap d =
     (if d \<noteq> Plain JUndefined then cap\<lparr>writtenData := writtenData cap @ [d]\<rparr> else cap)"


text \<open>\<open>Buffer.concat\<close>: it throws when an element of the list is not a buffer.\<close>

fun Buffer_concat :: "data list \<Rightarrow> error + bytes" where
  "Buffer_concat [] = Inr []"
| "Buffer_concat (Buffer b # ds) =
     (case Buffer_concat ds of Inl e \<Rightarrow> Inl e | Inr bs \<Rightarrow> Inr (b @ bs))"
| "Buffer_concat (d # ds) = Inl TypeError"

text \<open>
  Lines 153 to 165 of the \<open>end\<close> interceptor: the list of written chunks after the
  pushes, and the value assigned to \<open>val\<close> or the error thrown.
\<close>

definition end_collect ::
  "externals \<Rightarrow> data list \<Rightarrow> data \<Rightarrow> data list \<times> (error + data)" where
  "end_collect ext written d =
     (if data_truthy d then
        (case d of
           Buffer b \<Rightarrow>
             (written @ [d],
              case Buffer_concat (written @ [d]) of
                Inl e \<Rightarrow> Inl e
              | Inr bs \<Rightarrow> Inr (Buffer bs))
         | StringObject s \<Rightarrow>
             (written @ [Buffer (new_Buffer ext s)],
              case Buffer_concat (written @ [Buffer (new_Buffer ext s)]) of
                Inl e \<Rightarrow> Inl e
              | Inr bs \<Rightarrow> Inr (Buffer bs))
         | Plain v \<Rightarrow> (written, Inr d))
      else if written \<noteq> [] then
        (written,
         case Buffer_concat written of Inl e \<Rightarrow> Inl e | Inr bs \<Rightarrow> Inr (Buffer bs))
      else (written, Inr (Plain JUndefined)))"

text \<open>
  Lines 174 to 187: a buffer becomes text, text is parsed. The error of \<open>JSON.parse\<close>
  is rethrown with \<open>failedValidation\<close> set and the message replaced.
\<close>

definition decode_fault :: error where
  "decode_fault = SyntaxError True ''Value expected to be an array/object but is not''"

definition parse_text :: "externals \<Rightarrow> string \<Rightarrow> error + jsval" where
  "parse_text ext s = (case JSON_parse ext s of None \<Rightarrow> Inl decode_fault | Some v \<Rightarrow> Inr v)"

definition decode :: "externals \<Rightarrow> data \<Rightarrow> encoding \<Rightarrow> error + jsval" where
  "decode ext val enc =
     (case val of
        Buffer b \<Rightarrow>
          (case Buffer_toString ext b enc of
             None \<Rightarrow> Inl TypeError
           | Some s \<Rightarrow> parse_text ext s)
      | StringObject s \<Rightarrow> parse_text ext s
      | Plain v \<Rightarrow> (case v of JStr s \<Rightarrow> parse_text ext s | _ \<Rightarrow> Inr v))"

text \<open>Lines 189 to 211: resolution of the response schema, validation, and the outcome.\<close>

definition check_response ::
  "externals \<Rightarrow> options \<Rightarrow> pathObject list \<Rightarrow> request \<Rightarrow> response \<Rightarrow> jsval \<Rightarrow> encoding \<Rightarrow>
   pathObject list \<times> event list \<times> error option" where
  "check_response ext opts pathObjects req res val enc =
     (case resolveResponseModelSchema ext opts pathObjects req (statusCode res) of
        (pathObjects', Inl e) \<Rightarrow> (pathObjects', [], Some e)
      | (pathObjects', Inr responseSchema) \<Rightarrow>
          if \<not> truthy responseSchema then (pathObjects', sendData ext (Plain val) enc, None)
          else
            (case ajv_compile ext responseSchema of
               None \<Rightarrow> (pathObjects', [], Some CompileError)
             | Some validator \<Rightarrow>
                 (case validator val of
                    (validation, errors) \<Rightarrow>
                      if \<not> validation then
                        if responseValidationFn opts then
                          (pathObjects',
                           ResponseValidationFn req val errors # sendData ext (Plain val) enc,
                           None)
                        else (pathObjects', [Next (Some (failure_message req))], None)
                      else (pathObjects', sendData ext (Plain val) enc, None))))"

text \<open>
  The \<open>end\<close> interceptor, in the order of the source: the chunks are collected
  (lines 153 to 165), the buffer passed to \<open>end\<close> is rendered for \<open>debug\<close>
  (lines 167 to 169, where \<open>data.toString(encoding)\<close> may throw), the saved functions
  are put back (lines 171 and 172), and the rest follows. The result is the module
  state, the response object and the closure variables after the call, the events,
  and the error thrown, if any.
\<close>

definition debug_throws :: "externals \<Rightarrow> data \<Rightarrow> encoding \<Rightarrow> bool" where
  "debug_throws ext d enc =
     (case d of Buffer b \<Rightarrow> Buffer_toString ext b enc = None | _ \<Rightarrow> False)"

definition end_hook ::
  "externals \<Rightarrow> options \<Rightarrow> pathObject list \<Rightarrow> request \<Rightarrow> response \<Rightarrow> capture \<Rightarrow>
   data \<Rightarrow> encoding \<Rightarrow>
   pathObject list \<times> response \<times> capture \<times> event list \<times> error option" where
  "end_hook ext opts pathObjects req res cap d enc =
     (case end_collect ext (writtenData cap) d of
        (written, Inl e) \<Rightarrow> (pathObjects, res, cap\<lparr>writtenData := written\<rparr>, [], Some e)
      | (written, Inr val) \<Rightarrow>
          if debug_throws ext d enc then
            (pathObjects, res, cap\<lparr>writtenData := written\<rparr>, [], Some TypeError)
          else
            (case decode ext val enc of
               Inl e \<Rightarrow>
                 (pathObjects, res\<lparr>write_op := origWrite cap, end_op := origEnd cap\<rparr>,
                  cap\<lparr>writtenData := written\<rparr>, [], Some e)
             | Inr v \<Rightarrow>
                 (case check_response ext opts pathObjects req
                         (res\<lparr>write_op := origWrite cap, end_op := origEnd cap\<rparr>) v enc of
                    (pathObjects', events, r) \<Rightarrow>
                      (pathObjects', res\<lparr>write_op := origWrite cap, end_op := origEnd cap\<rparr>,
                       cap\<lparr>writtenData := written\<rparr>, events, r))))"

section \<open>The middleware and its construction\<close>

text \<open>
  \<open>validate\<close>: the two stages one after the other, each under its option. A stage
  that throws ends the call. The capture is present when the interceptors were
  installed.
\<close>

definition validate ::
  "externals \<Rightarrow> options \<Rightarrow> pathObject list \<Rightarrow> request \<Rightarrow> response \<Rightarrow>
   pathObject list \<times> response \<times> capture option \<times> event list \<times> error option" where
  "validate ext opts pathObjects req res =
     (case (if validateRequestOpt opts then validateRequest ext opts pathObjects req res
            else (pathObjects, res, [], None)) of
        (pathObjects', res', events, Some e) \<Rightarrow> (pathObjects', res', None, events, Some e)
      | (pathObjects', res', events, None) \<Rightarrow>
          if validateResponseOpt opts then
            (case validateResponse res' of
               (res'', cap, events') \<Rightarrow> (pathObjects', res'', Some cap, events @ events', None))
          else (pathObjects', res', None, events, None))"

text \<open>
  \<open>init\<close>. An option left \<open>undefined\<close> takes the default \<open>true\<close>; the callbacks are
  present or not. \<open>_.map\<close> runs over the entries of the \<open>paths\<close> object. Over an
  array, a string, or an object whose own \<open>length\<close> is a valid length, it runs over
  the indices, so that \<open>path\<close> is a number, on which \<open>replace\<close> is not a function;
  for an object it first creates the result with \<open>Array(length)\<close>, which throws a
  \<open>RangeError\<close> for a length of \<open>2 ^ 32\<close> or more. Every other value has no
  entries.
\<close>

record init_options =
  schema_given :: jsval
  validateRequest_given :: jsval
  validateResponse_given :: jsval
  allowNullable_given :: jsval
  requestValidationFn_given :: bool
  responseValidationFn_given :: bool

definition default_true :: "jsval \<Rightarrow> bool" where
  "default_true v = (if v = JUndefined then True else truthy v)"

definition is_length :: "rat \<Rightarrow> bool" where
  "is_length n = (0 \<le> n \<and> of_int \<lfloor>n\<rfloor> = n \<and> n \<le> 9007199254740991)"

definition map_entries :: "jsval \<Rightarrow> error + (key \<times> jsval) list" where
  "map_entries paths =
     (case paths of
        JArr xs \<Rightarrow> if xs = [] then Inr [] else Inl TypeError
      | JStr s \<Rightarrow> if s = [] then Inr [] else Inl TypeError
      | JObj ps \<Rightarrow>
          (case map_of ps (Name ''length'') of
             Some (JNum n) \<Rightarrow>
               if is_length n then
                 (if n = 0 then Inr []
                  else if 4294967296 \<le> n then Inl RangeError
                  else Inl TypeError)
               else Inr ps
           | _ \<Rightarrow> Inr ps)
      | _ \<Rightarrow> Inr [])"

definition init :: "externals \<Rightarrow> init_options \<Rightarrow> error + (options \<times> pathObject list)" where
  "init ext given =
     (case get_prop (schema_given given) (Name ''paths'') of
        Inl e \<Rightarrow> Inl e
      | Inr paths \<Rightarrow>
          (case map_entries paths of
             Inl e \<Rightarrow> Inl e
           | Inr entries \<Rightarrow>
               Inr (\<lparr> validateRequestOpt = default_true (validateRequest_given given),
                      validateResponseOpt = default_true (validateResponse_given given),
                      allowNullable = default_true (allowNullable_given given),
                      requestValidationFn = requestValidationFn_given given,
                      responseValidationFn = responseValidationFn_given given \<rparr>,
                    buildPathObjects ext entries)))"

section \<open>Key paths in the contract\<close>

text \<open>
  Where the two resolvers find their schema inside the matched path definition.
\<close>

definition request_location :: "request \<Rightarrow> key list" where
  "request_location req =
     [Name (toLowerCase (method' req)), Name ''parameters'', Idx 0, Name ''schema'']"

definition response_location :: "request \<Rightarrow> nat option \<Rightarrow> key list" where
  "response_location req sc =
     [Name (toLowerCase (method' req)), Name ''responses'', Idx (status_or_200 sc),
      Name ''schema'']"

text \<open>
  A key path reaches into a value when each of its keys is an entry of an object or
  an element of an array.
\<close>

fun reaches :: "jsval \<Rightarrow> key list \<Rightarrow> bool" where
  "reaches obj [] = True"
| "reaches (JObj ps) (k # ks) =
     (case map_of ps k of None \<Rightarrow> False | Some child \<Rightarrow> reaches child ks)"
| "reaches (JArr xs) (Idx i # ks) = (i < length xs \<and> reaches (xs ! i) ks)"
| "reaches obj (k # ks) = False"

section \<open>Validation verdicts\<close>

text \<open>The verdict of the engine for a schema and a value; a schema that does not
  compile accepts nothing.\<close>

definition accepted :: "externals \<Rightarrow> jsval \<Rightarrow> jsval \<Rightarrow> bool" where
  "accepted ext s v = (case ajv_compile ext s of None \<Rightarrow> False | Some validator \<Rightarrow> fst (validator v))"

section \<open>Collaborators for the examples\<close>

text \<open>
  Concrete collaborators, used where a statement is evaluated on an example. The
  pathname is the part of the request target before the first \<open>?\<close> or \<open>#\<close> (\<open>null\<close>
  when that part is empty). The matcher compares path segments, a segment of the
  template that starts with a colon matching any non-empty segment.
\<close>

fun split_on :: "char \<Rightarrow> string \<Rightarrow> string list" where
  "split_on c [] = [[]]"
| "split_on c (x # xs) =
     (case split_on c xs of
        [] \<Rightarrow> [[x]]
      | seg # segs \<Rightarrow> if x = c then [] # seg # segs else (x # seg) # segs)"

definition segment_matches :: "string \<Rightarrow> string \<Rightarrow> bool" where
  "segment_matches t s =
     (case t of [] \<Rightarrow> s = [] | c # _ \<Rightarrow> if c = CHR '':'' then s \<noteq> [] else t = s)"

definition sample_matcher :: "string \<Rightarrow> string \<Rightarrow> bool" where
  "sample_matcher t p =
     list_all2 segment_matches (split_on CHR ''/'' t) (split_on CHR ''/'' p)"

definition sample_pathname :: "string \<Rightarrow> string option" where
  "sample_pathname u =
     (case takeWhile (\<lambda>c. c \<noteq> CHR ''?'' \<and> c \<noteq> CHR ''#'') u of [] \<Rightarrow> None | p \<Rightarrow> Some p)"

text \<open>
  The keywords of JSON Schema that the decoration produces or meets: \<open>type\<close>,
  \<open>properties\<close> and \<open>oneOf\<close> (valid against exactly one of the listed schemas). Any
  other keyword, \<open>x-nullable\<close> among them, constrains nothing.
\<close>

definition type_matches :: "string \<Rightarrow> jsval \<Rightarrow> bool" where
  "type_matches t v =
     (case v of
        JUndefined \<Rightarrow> False
      | JNull \<Rightarrow> t = ''null''
      | JBool b \<Rightarrow> t = ''boolean''
      | JNum n \<Rightarrow> t = ''number'' \<or> (t = ''integer'' \<and> of_int \<lfloor>n\<rfloor> = n)
      | JStr s \<Rightarrow> t = ''string''
      | JArr xs \<Rightarrow> t = ''array''
      | JObj ps \<Rightarrow> t = ''object'')"

definition type_holds :: "jsval \<Rightarrow> jsval \<Rightarrow> bool" where
  "type_holds arg v =
     (case arg of
        JStr t \<Rightarrow> type_matches t v
      | JArr ts \<Rightarrow> list_ex (\<lambda>t. case t of JStr n \<Rightarrow> type_matches n v | _ \<Rightarrow> False) ts
      | _ \<Rightarrow> True)"

fun schema_accepts :: "jsval \<Rightarrow> jsval \<Rightarrow> bool" where
  "schema_accepts (JObj kws) v =
     list_all (\<lambda>(k, arg).
        if k = Name ''type'' then type_holds arg v
        else if k = Name ''oneOf'' then
          (case arg of
             JArr ss \<Rightarrow> length (filter (\<lambda>s. schema_accepts s v) ss) = 1
           | _ \<Rightarrow> True)
        else if k = Name ''properties'' then
          (case arg of
             JObj ps \<Rightarrow>
               (case v of
                  JObj members \<Rightarrow>
                    list_all (\<lambda>(x, s). case map_of members x of
                                           None \<Rightarrow> True
                                         | Some w \<Rightarrow> schema_accepts s w) ps
                | _ \<Rightarrow> True)
           | _ \<Rightarrow> True)
        else True) kws"
| "schema_accepts (JBool b) v = b"
| "schema_accepts s v = False"

definition sample_validator :: "jsval \<Rightarrow> validator" where
  "sample_validator s =
     (\<lambda>v. (schema_accepts s v, if schema_accepts s v then JNull else JArr [JStr ''invalid'']))"

definition sample_compile :: "jsval \<Rightarrow> validator option" where
  "sample_compile s =
     (case s of
        JObj kws \<Rightarrow> Some (sample_validator s)
      | JBool b \<Rightarrow> Some (sample_validator s)
      | _ \<Rightarrow> None)"

text \<open>A finite table in place of \<open>JSON.parse\<close> and \<open>JSON.stringify\<close>.\<close>

definition sample_table :: "(string \<times> jsval) list" where
  "sample_table =
     [(''null'', JNull), (''2'', JNum 2), (''42'', JNum 42), (''[]'', JArr []), (''{}'', JObj [])]"

definition sample_parse :: "string \<Rightarrow> jsval option" where
  "sample_parse s = map_of sample_table s"

definition sample_stringify :: "jsval \<Rightarrow> jsval" where
  "sample_stringify v =
     (case map_of (map (\<lambda>(s, w). (w, s)) sample_table) v of
        None \<Rightarrow> JUndefined
      | Some s \<Rightarrow> JStr s)"

definition sample_ext :: externals where
  "sample_ext =
     \<lparr> parseUrl_pathname = sample_pathname,
       pathToRegexp = sample_matcher,
       ajv_compile = sample_compile,
       JSON_parse = sample_parse,
       JSON_stringify = sample_stringify,
       new_Buffer = (\<lambda>s. s),
       Buffer_toString = (\<lambda>b enc. Some b),
       toNumber = (\<lambda>v. None) \<rparr>"

text \<open>
  A contract with two templates that both match \<open>/items/special\<close>. \<open>PUT /items/{id}\<close>
  declares a body parameter, \<open>GET /items/{id}\<close> declares none and has a schema for
  status 200; no other method is declared.
\<close>

text \<open>
  A schema whose property \<open>x\<close> is marked nullable and is otherwise unconstrained, so
  that it already admits \<open>null\<close>.
\<close>

definition free_schema :: jsval where
  "free_schema =
     JObj [(Name ''properties'', JObj [(Name ''x'', JObj [(Name ''x-nullable'', JBool True)])])]"

definition item_schema :: jsval where
  "item_schema =
     JObj [(Name ''type'', JStr ''object''),
           (Name ''properties'',
            JObj [(Name ''name'',
                   JObj [(Name ''type'', JStr ''string''), (Name ''x-nullable'', JBool True)]),
                  (Name ''size'', JObj [(Name ''type'', JStr ''number'')])])]"

definition sample_paths :: "(key \<times> jsval) list" where
  "sample_paths =
     [(Name ''/items/{id}'',
       JObj [(Name ''get'',
              JObj [(Name ''responses'',
                     JObj [(Idx 200, JObj [(Name ''schema'', item_schema)])])]),
             (Name ''put'',
              JObj [(Name ''parameters'',
                     JArr [JObj [(Name ''in'', JStr ''body''), (Name ''schema'', item_schema)]]),
                    (Name ''responses'', JObj [(Idx 204, JObj [])])])]),
      (Name ''/items/special'',
       JObj [(Name ''get'', JObj [(Name ''responses'', JObj [])])])]"

definition sample_pathObjects :: "pathObject list" where
  "sample_pathObjects = buildPathObjects sample_ext sample_paths"

definition sample_options :: options where
  "sample_options =
     \<lparr> validateRequestOpt = True, validateResponseOpt = True, allowNullable = True,
       requestValidationFn = False, responseValidationFn = False \<rparr>"

definition sample_response :: response where
  "sample_response = \<lparr> statusCode = Some 200, write_op = Original, end_op = Original \<rparr>"

definition put_request :: request where
  "put_request =
     \<lparr> method' = ''PUT'', originalUrl = ''/items/7?verbose=1'',
       body = JObj [(Name ''name'', JNum 42)] \<rparr>"

definition get_request :: request where
  "get_request = \<lparr> method' = ''GET'', originalUrl = ''/items/7'', body = JUndefined \<rparr>"

definition orders_request :: request where
  "orders_request = \<lparr> method' = ''GET'', originalUrl = ''/orders'', body = JUndefined \<rparr>"

definition post_request :: request where
  "post_request = \<lparr> method' = ''POST'', originalUrl = ''/items/7'', body = JObj [] \<rparr>"

text \<open>
  An exchange in which the interceptors have been installed and the handler has
  written the one-byte buffer \<open>4\<close>; and one in which it has written the primitive
  string \<open>4\<close>.
\<close>

definition hooked_response :: response where
  "hooked_response = fst (validateResponse sample_response)"

definition sample_capture :: capture where
  "sample_capture = write_hook (fst (snd (validateResponse sample_response))) (Buffer ''4'')"


text \<open>The options object from which \<open>init\<close> builds the example: only \<open>schema\<close> is given.\<close>

definition sample_given :: init_options where
  "sample_given =
     \<lparr> schema_given = JObj [(Name ''swagger'', JStr ''2.0''), (Name ''paths'', JObj sample_paths)],
       validateRequest_given = JUndefined,
       validateResponse_given = JUndefined,
       allowNullable_given = JUndefined,
       requestValidationFn_given = False,
       responseValidationFn_given = False \<rparr>"

section \<open>The contract as a store of objects\<close>

text \<open>
  The model above holds the contract as a tree, which cannot tell whether two places
  of the contract hold the same object. A contract whose references have been resolved
  may hold one schema object at several places, and \<open>decorateWithNullable\<close> assigns
  into the object it is given. To settle which objects a resolution changes, the
  resolvers and the stages are modelled a second time, with the objects and arrays of
  the contract in a store: a reference is the address of a cell, and a new object is
  allocated at the end of the store. Strings, numbers and the other primitive values
  are held in place.
\<close>

datatype sval =
    SUndefined
  | SNull
  | SBool bool
  | SNum rat
  | SStr string
  | SRef nat

datatype cell = CObj "(key \<times> sval) list" | CArr "sval list"

type_synonym heap = "cell list"

fun s_truthy :: "sval \<Rightarrow> bool" where
  "s_truthy SUndefined = False"
| "s_truthy SNull = False"
| "s_truthy (SBool b) = b"
| "s_truthy (SNum n) = (n \<noteq> 0)"
| "s_truthy (SStr s) = (s \<noteq> [])"
| "s_truthy (SRef a) = True"

text \<open>
  Reading, assigning and listing the entries of one object or array. The decoration
  assigns under keys that \<open>Object.keys\<close> has listed, which for an array are indices;
  an assignment to an array under a name is not reached and is left without effect.
\<close>

fun cell_get :: "cell \<Rightarrow> key \<Rightarrow> sval" where
  "cell_get (CObj ps) k = (case map_of ps k of None \<Rightarrow> SUndefined | Some v \<Rightarrow> v)"
| "cell_get (CArr xs) (Idx i) = (if i < length xs then xs ! i else SUndefined)"
| "cell_get (CArr xs) (Name n) =
     (if n = ''length'' then SNum (of_nat (length xs)) else SUndefined)"

fun cell_set :: "cell \<Rightarrow> key \<Rightarrow> sval \<Rightarrow> cell" where
  "cell_set (CObj ps) k v = CObj (AList.update k v ps)"
| "cell_set (CArr xs) (Idx i) v = (if i < length xs then CArr (xs[i := v]) else CArr xs)"
| "cell_set (CArr xs) (Name n) v = CArr xs"

fun cell_keys :: "cell \<Rightarrow> key list" where
  "cell_keys (CObj ps) = map fst ps"
| "cell_keys (CArr xs) = map Idx [0..<length xs]"

text \<open>
  The property read \<open>obj[k]\<close>, the assignment \<open>obj[k] = v\<close> and \<open>Object.keys(obj)\<close>
  on values of the store. They behave as \<open>get_prop\<close>, \<open>set_prop\<close> and \<open>own_keys\<close>
  do, except that the assignment changes the cell a reference points to, for every
  holder of that reference. An address outside the store does not occur in a program;
  a read through one gives \<open>undefined\<close>.
\<close>

fun s_get :: "heap \<Rightarrow> sval \<Rightarrow> key \<Rightarrow> error + sval" where
  "s_get h SUndefined k = Inl TypeError"
| "s_get h SNull k = Inl TypeError"
| "s_get h (SBool b) k = Inr SUndefined"
| "s_get h (SNum n) k = Inr SUndefined"
| "s_get h (SStr s) (Idx i) = Inr (if i < length s then SStr [s ! i] else SUndefined)"
| "s_get h (SStr s) (Name n) =
     Inr (if n = ''length'' then SNum (of_nat (length s)) else SUndefined)"
| "s_get h (SRef a) k = Inr (if a < length h then cell_get (h ! a) k else SUndefined)"

fun s_set :: "heap \<Rightarrow> sval \<Rightarrow> key \<Rightarrow> sval \<Rightarrow> heap" where
  "s_set h (SRef a) k v = (if a < length h then h[a := cell_set (h ! a) k v] else h)"
| "s_set h obj k v = h"

fun s_keys :: "heap \<Rightarrow> sval \<Rightarrow> key list" where
  "s_keys h (SRef a) = (if a < length h then cell_keys (h ! a) else [])"
| "s_keys h (SStr s) = map Idx [0..<length s]"
| "s_keys h v = []"

text \<open>
  The schema engine reads the schema it compiles from the store; the numeric
  conversion of an object or array (reached only for a \<open>parameters\<close> object with an
  own \<open>length\<close> that is itself an object) reads it as well.
\<close>

record store_engine =
  ajv_compile_store :: "heap \<Rightarrow> sval \<Rightarrow> validator option"
  toNumber_store :: "heap \<Rightarrow> nat \<Rightarrow> rat option"

fun s_greater_zero :: "externals \<Rightarrow> store_engine \<Rightarrow> heap \<Rightarrow> sval \<Rightarrow> bool" where
  "s_greater_zero ext eng h SUndefined = False"
| "s_greater_zero ext eng h SNull = False"
| "s_greater_zero ext eng h (SBool b) = b"
| "s_greater_zero ext eng h (SNum n) = (0 < n)"
| "s_greater_zero ext eng h (SStr s) =
     (case toNumber ext (JStr s) of None \<Rightarrow> False | Some n \<Rightarrow> 0 < n)"
| "s_greater_zero ext eng h (SRef a) =
     (case toNumber_store eng h a of None \<Rightarrow> False | Some n \<Rightarrow> 0 < n)"

subsection \<open>Nullable decoration on the store\<close>

text \<open>
  The object literal of lines 34 to 39: three new objects, the schema
  \<open>{type: 'null'}\<close>, the array of the two alternatives and the object that holds it
  under \<open>oneOf\<close>. The first alternative is the value the property held, so a property
  schema that was an object is now referred to from the array.
\<close>

definition new_choice :: "heap \<Rightarrow> sval \<Rightarrow> heap \<times> sval" where
  "new_choice h p =
     (h @ [CObj [(Name ''type'', SStr ''null'')],
           CArr [p, SRef (length h)],
           CObj [(Name ''oneOf'', SRef (length h + 1))]],
      SRef (length h + 2))"

text \<open>
  The callback of the \<open>forEach\<close> for one key (lines 33 to 40). It reads
  \<open>schema.properties\<close> anew, as the source does, and assigns into the object that
  read returns.
\<close>

definition decorate_prop :: "sval \<Rightarrow> key \<Rightarrow> heap \<Rightarrow> error + heap" where
  "decorate_prop schema prop h =
     (case s_get h schema (Name ''properties'') of
        Inl e \<Rightarrow> Inl e
      | Inr props \<Rightarrow>
          (case s_get h props prop of
             Inl e \<Rightarrow> Inl e
           | Inr p \<Rightarrow>
               (case s_get h p (Name ''x-nullable'') of
                  Inl e \<Rightarrow> Inl e
                | Inr flag \<Rightarrow>
                    Inr (if s_truthy flag then
                           (case new_choice h p of (h', choice) \<Rightarrow> s_set h' props prop choice)
                         else h))))"

fun decorate_keys_store :: "key list \<Rightarrow> sval \<Rightarrow> heap \<Rightarrow> heap \<times> error option" where
  "decorate_keys_store [] schema h = (h, None)"
| "decorate_keys_store (prop # rest) schema h =
     (case decorate_prop schema prop h of
        Inl e \<Rightarrow> (h, Some e)
      | Inr h' \<Rightarrow> decorate_keys_store rest schema h')"

text \<open>
  \<open>decorateWithNullable\<close>: the store after the call and the error thrown, if any. The
  value returned is the argument itself.
\<close>

definition decorateWithNullable_store :: "sval \<Rightarrow> heap \<Rightarrow> heap \<times> error option" where
  "decorateWithNullable_store schema h =
     (if s_truthy schema then
        (case s_get h schema (Name ''properties'') of
           Inl e \<Rightarrow> (h, Some e)
         | Inr props \<Rightarrow>
             if s_truthy props then decorate_keys_store (s_keys h props) schema h
             else (h, None))
      else (h, None))"

subsection \<open>Resolution on the store\<close>

text \<open>
  The module state: the store that holds the contract, and \<open>pathObjects\<close>, whose
  \<open>definition\<close> fields refer into it.
\<close>

record pathObject_s =
  definition_s :: sval
  regexp_s :: "string \<Rightarrow> bool"
  path_s :: string

record state =
  heap :: heap
  pathObjects_s :: "pathObject_s list"

definition matchUrlWithSchema_store ::
  "externals \<Rightarrow> pathObject_s list \<Rightarrow> string \<Rightarrow> error + sval" where
  "matchUrlWithSchema_store ext pathObjects reqUrl =
     (case parseUrl_pathname ext reqUrl of
        None \<Rightarrow> (if pathObjects = [] then Inr SNull else Inl TypeError)
      | Some url \<Rightarrow>
          (case filter (\<lambda>obj. regexp_s obj url) pathObjects of
             [] \<Rightarrow> Inr SNull
           | obj # _ \<Rightarrow> Inr (definition_s obj)))"

text \<open>Lines 48 to 56 and lines 66 to 76, as \<open>response_schema\<close> and \<open>request_schema\<close>.\<close>

definition response_schema_store ::
  "heap \<Rightarrow> sval \<Rightarrow> string \<Rightarrow> nat option \<Rightarrow> error + sval" where
  "response_schema_store h pathObj m sc =
     (if s_truthy pathObj then
        (case s_get h pathObj (Name m) of
           Inl e \<Rightarrow> Inl e
         | Inr entry \<Rightarrow>
             (case s_get h entry (Name ''responses'') of
                Inl e \<Rightarrow> Inl e
              | Inr responseSchemas \<Rightarrow>
                  (case s_get h responseSchemas (Idx (status_or_200 sc)) of
                     Inl e \<Rightarrow> Inl e
                   | Inr descriptor \<Rightarrow>
                       if s_truthy descriptor then s_get h descriptor (Name ''schema'')
                       else Inr SNull)))
      else Inr SNull)"

definition request_schema_store ::
  "externals \<Rightarrow> store_engine \<Rightarrow> heap \<Rightarrow> sval \<Rightarrow> string \<Rightarrow> error + sval" where
  "request_schema_store ext eng h pathObj m =
     (if s_truthy pathObj then
        (case s_get h pathObj (Name m) of
           Inl e \<Rightarrow> Inl e
         | Inr entry \<Rightarrow>
             (case (if s_truthy entry then s_get h entry (Name ''parameters'') else Inr SNull) of
                Inl e \<Rightarrow> Inl e
              | Inr requestSchemas \<Rightarrow>
                  if s_truthy requestSchemas \<and>
                     (case s_get h requestSchemas (Name ''length'') of
                        Inl e \<Rightarrow> False
                      | Inr len \<Rightarrow> s_greater_zero ext eng h len)
                  then
                    (case s_get h requestSchemas (Idx 0) of
                       Inl e \<Rightarrow> Inl e
                     | Inr first \<Rightarrow> s_get h first (Name ''schema''))
                  else Inr SNull))
      else Inr SNull)"

text \<open>The closing lines of both resolvers.\<close>

definition finish_resolve_store :: "options \<Rightarrow> state \<Rightarrow> sval \<Rightarrow> state \<times> (error + sval)" where
  "finish_resolve_store opts st schema =
     (if allowNullable opts then
        (case decorateWithNullable_store schema (heap st) of
           (h', r) \<Rightarrow> (st\<lparr>heap := h'\<rparr>, case r of None \<Rightarrow> Inr schema | Some e \<Rightarrow> Inl e))
      else (st, Inr schema))"

definition resolveResponseModelSchema_store ::
  "externals \<Rightarrow> options \<Rightarrow> state \<Rightarrow> request \<Rightarrow> nat option \<Rightarrow> state \<times> (error + sval)" where
  "resolveResponseModelSchema_store ext opts st req sc =
     (case matchUrlWithSchema_store ext (pathObjects_s st) (originalUrl req) of
        Inl e \<Rightarrow> (st, Inl e)
      | Inr pathObj \<Rightarrow>
          (case response_schema_store (heap st) pathObj (toLowerCase (method' req)) sc of
             Inl e \<Rightarrow> (st, Inl e)
           | Inr schema \<Rightarrow> finish_resolve_store opts st schema))"

definition resolveRequestModelSchema_store ::
  "externals \<Rightarrow> store_engine \<Rightarrow> options \<Rightarrow> state \<Rightarrow> request \<Rightarrow> state \<times> (error + sval)" where
  "resolveRequestModelSchema_store ext eng opts st req =
     (case matchUrlWithSchema_store ext (pathObjects_s st) (originalUrl req) of
        Inl e \<Rightarrow> (st, Inl e)
      | Inr pathObj \<Rightarrow>
          (case request_schema_store ext eng (heap st) pathObj (toLowerCase (method' req)) of
             Inl e \<Rightarrow> (st, Inl e)
           | Inr schema \<Rightarrow> finish_resolve_store opts st schema))"

subsection \<open>The stages on the store\<close>

text \<open>
  \<open>validateRequest\<close>, the \<open>end\<close> interceptor and \<open>validate\<close> as above, with the
  module state in the store. The engine compiles the schema it is handed as it is in
  the store at that moment; request bodies and decoded response bodies are values of
  their own, outside the contract.
\<close>

definition validateRequest_store ::
  "externals \<Rightarrow> store_engine \<Rightarrow> options \<Rightarrow> state \<Rightarrow> request \<Rightarrow> response \<Rightarrow>
   state \<times> response \<times> event list \<times> error option" where
  "validateRequest_store ext eng opts st req res =
     (case resolveRequestModelSchema_store ext eng opts st req of
        (st', Inl e) \<Rightarrow> (st', res, [], Some e)
      | (st', Inr requestSchema) \<Rightarrow>
          if \<not> s_truthy requestSchema then (st', res, [Next None], None)
          else
            (case ajv_compile_store eng (heap st') requestSchema of
               None \<Rightarrow> (st', res, [], Some CompileError)
             | Some validator \<Rightarrow>
                 (case validator (body req) of
                    (validation, errors) \<Rightarrow>
                      if \<not> validation then
                        if requestValidationFn opts then
                          (st', res,
                           [RequestValidationFn req (body req) errors, Next None], None)
                        else
                          (st', res\<lparr>statusCode := Some 400\<rparr>,
                           [Status 400, Json (failure_message req)], None)
                      else (st', res, [Next None], None))))"

definition check_response_store ::
  "externals \<Rightarrow> store_engine \<Rightarrow> options \<Rightarrow> state \<Rightarrow> request \<Rightarrow> response \<Rightarrow> jsval \<Rightarrow>
   encoding \<Rightarrow> state \<times> event list \<times> error option" where
  "check_response_store ext eng opts st req res val enc =
     (case resolveResponseModelSchema_store ext opts st req (statusCode res) of
        (st', Inl e) \<Rightarrow> (st', [], Some e)
      | (st', Inr responseSchema) \<Rightarrow>
          if \<not> s_truthy responseSchema then (st', sendData ext (Plain val) enc, None)
          else
            (case ajv_compile_store eng (heap st') responseSchema of
               None \<Rightarrow> (st', [], Some CompileError)
             | Some validator \<Rightarrow>
                 (case validator val of
                    (validation, errors) \<Rightarrow>
                      if \<not> validation then
                        if responseValidationFn opts then
                          (st',
                           ResponseValidationFn req val errors # sendData ext (Plain val) enc,
                           None)
                        else (st', [Next (Some (failure_message req))], None)
                      else (st', sendData ext (Plain val) enc, None))))"

definition end_hook_store ::
  "externals \<Rightarrow> store_engine \<Rightarrow> options \<Rightarrow> state \<Rightarrow> request \<Rightarrow> response \<Rightarrow> capture \<Rightarrow>
   data \<Rightarrow> encoding \<Rightarrow> state \<times> response \<times> capture \<times> event list \<times> error option" where
  "end_hook_store ext eng opts st req res cap d enc =
     (case end_collect ext (writtenData cap) d of
        (written, Inl e) \<Rightarrow> (st, res, cap\<lparr>writtenData := written\<rparr>, [], Some e)
      | (written, Inr val) \<Rightarrow>
          if debug_throws ext d enc then
            (st, res, cap\<lparr>writtenData := written\<rparr>, [], Some TypeError)
          else
            (case decode ext val enc of
               Inl e \<Rightarrow>
                 (st, res\<lparr>write_op := origWrite cap, end_op := origEnd cap\<rparr>,
                  cap\<lparr>writtenData := written\<rparr>, [], Some e)
             | Inr v \<Rightarrow>
                 (case check_response_store ext eng opts st req
                         (res\<lparr>write_op := origWrite cap, end_op := origEnd cap\<rparr>) v enc of
                    (st', events, r) \<Rightarrow>
                      (st', res\<lparr>write_op := origWrite cap, end_op := origEnd cap\<rparr>,
                       cap\<lparr>writtenData := written\<rparr>, events, r))))"

definition validate_store ::
  "externals \<Rightarrow> store_engine \<Rightarrow> options \<Rightarrow> state \<Rightarrow> request \<Rightarrow> response \<Rightarrow>
   state \<times> response \<times> capture option \<times> event list \<times> error option" where
  "validate_store ext eng opts st req res =
     (case (if validateRequestOpt opts then validateRequest_store ext eng opts st req res
            else (st, res, [], None)) of
        (st', res', events, Some e) \<Rightarrow> (st', res', None, events, Some e)
      | (st', res', events, None) \<Rightarrow>
          if validateResponseOpt opts then
            (case validateResponse res' of
               (res'', cap, events') \<Rightarrow> (st', res'', Some cap, events @ events', None))
          else (st', res', None, events, None))"

subsection \<open>Objects on the way to a schema\<close>

text \<open>
  The test of line 33 on a property value; the value found along a key path; and the
  values passed along it, the first and the last included.
\<close>

definition marked_nullable :: "heap \<Rightarrow> sval \<Rightarrow> bool" where
  "marked_nullable h p =
     (case s_get h p (Name ''x-nullable'') of Inl e \<Rightarrow> False | Inr flag \<Rightarrow> s_truthy flag)"

fun s_lookup :: "heap \<Rightarrow> sval \<Rightarrow> key list \<Rightarrow> error + sval" where
  "s_lookup h obj [] = Inr obj"
| "s_lookup h obj (k # ks) =
     (case s_get h obj k of Inl e \<Rightarrow> Inl e | Inr child \<Rightarrow> s_lookup h child ks)"

fun s_walk :: "heap \<Rightarrow> sval \<Rightarrow> key list \<Rightarrow> sval list" where
  "s_walk h obj [] = [obj]"
| "s_walk h obj (k # ks) =
     obj # (case s_get h obj k of Inl e \<Rightarrow> [] | Inr child \<Rightarrow> s_walk h child ks)"

text \<open>
  The schema object at \<open>s\<close> holds the properties object at \<open>p\<close>, which is another
  object; and the store after the assignment of line 34 for the key \<open>k\<close> of that
  properties object.
\<close>

definition regular :: "heap \<Rightarrow> nat \<Rightarrow> nat \<Rightarrow> bool" where
  "regular h s p =
     (s < length h \<and> p < length h \<and> s \<noteq> p \<and> cell_get (h ! s) (Name ''properties'') = SRef p)"

definition replaced :: "heap \<Rightarrow> nat \<Rightarrow> key \<Rightarrow> heap" where
  "replaced h p k =
     (case new_choice h (cell_get (h ! p) k) of (h', choice) \<Rightarrow> s_set h' (SRef p) k choice)"

subsection \<open>A contract that shares a schema\<close>

text \<open>
  The JSON document below a value of the store, followed to the given depth.
\<close>

fun value_of :: "nat \<Rightarrow> heap \<Rightarrow> sval \<Rightarrow> jsval" where
  "value_of n h SUndefined = JUndefined"
| "value_of n h SNull = JNull"
| "value_of n h (SBool b) = JBool b"
| "value_of n h (SNum x) = JNum x"
| "value_of n h (SStr s) = JStr s"
| "value_of 0 h (SRef a) = JUndefined"
| "value_of (Suc n) h (SRef a) =
     (if a < length h then
        (case h ! a of
           CObj ps \<Rightarrow> JObj (map (\<lambda>entry. (fst entry, value_of n h (snd entry))) ps)
         | CArr xs \<Rightarrow> JArr (map (value_of n h) xs))
      else JUndefined)"

text \<open>
  The example contract with one item schema, the object at address 0, held both by the
  response descriptor of \<open>GET /items/{id}\<close> (address 9) and by the body parameter of
  \<open>PUT /items/{id}\<close> (address 10). Its properties object is at address 1.
\<close>

definition sample_heap :: heap where
  "sample_heap =
     [CObj [(Name ''type'', SStr ''object''), (Name ''properties'', SRef 1)],
      CObj [(Name ''name'', SRef 2), (Name ''size'', SRef 3)],
      CObj [(Name ''type'', SStr ''string''), (Name ''x-nullable'', SBool True)],
      CObj [(Name ''type'', SStr ''number'')],
      CObj [(Name ''get'', SRef 5), (Name ''put'', SRef 6)],
      CObj [(Name ''responses'', SRef 7)],
      CObj [(Name ''parameters'', SRef 8)],
      CObj [(Idx 200, SRef 9)],
      CArr [SRef 10],
      CObj [(Name ''schema'', SRef 0)],
      CObj [(Name ''in'', SStr ''body''), (Name ''schema'', SRef 0)]]"

definition sample_state :: state where
  "sample_state =
     \<lparr> heap = sample_heap,
       pathObjects_s =
         [\<lparr> definition_s = SRef 4,
            regexp_s = sample_matcher (template_of ''/items/{id}''),
            path_s = ''/items/{id}'' \<rparr>] \<rparr>"

definition sample_engine :: store_engine where
  "sample_engine =
     \<lparr> ajv_compile_store = (\<lambda>h s. sample_compile (value_of (length h) h s)),
       toNumber_store = (\<lambda>h a. None) \<rparr>"

section \<open>Properties\<close>

subsection \<open>Path resolution\<close>

lemma filter_first_match:
  "i < length xs \<Longrightarrow> P (xs ! i) \<Longrightarrow> \<forall>j<i. \<not> P (xs ! j) \<Longrightarrow> \<exists>rest. filter P xs = xs ! i # rest"
proof (induction xs arbitrary: i)
  case Nil
  then show ?case by simp
next
  case (Cons x xs)
  show ?case
  proof (cases i)
    case 0
    with Cons.prems show ?thesis by simp
  next
    case (Suc n)
    with Cons.prems have "\<not> P x" by auto
    moreover from Suc Cons.prems have "\<exists>rest. filter P xs = xs ! n # rest"
      by (intro Cons.IH) auto
    ultimately show ?thesis using Suc by simp
  qed
qed

lemmas sample_simps =
  sample_ext_def sample_pathname_def sample_matcher_def segment_matches_def template_of_def
  sample_paths_def sample_pathObjects_def buildPathObjects_def sample_options_def
  sample_compile_def sample_validator_def sample_parse_def sample_stringify_def sample_table_def
  type_holds_def type_matches_def item_schema_def toLowerCase_def lower_char_def
  sample_response_def

text \<open>
  C3. Path resolution looks at the request target only through its pathname, so the
  query string and the fragment play no part. It returns the definition of the first
  path object, in the order of the registry, whose matcher accepts the pathname: if
  the object at position \<open>i\<close> accepts it and none before does, its definition is the
  result, whatever objects after it accept too. If no matcher accepts the pathname the
  result is \<open>null\<close>. The registry lists the templates in the order of the contract.
\<close>

theorem matchUrlWithSchema_first_match:
  assumes "parseUrl_pathname ext reqUrl = Some url"
  shows "(i < length pathObjects \<and> regexp (pathObjects ! i) url \<and>
            (\<forall>j<i. \<not> regexp (pathObjects ! j) url) \<longrightarrow>
            matchUrlWithSchema ext pathObjects reqUrl = Inr (definition' (pathObjects ! i)))
       \<and> ((\<forall>obj\<in>set pathObjects. \<not> regexp obj url) \<longrightarrow>
            matchUrlWithSchema ext pathObjects reqUrl = Inr JNull)
       \<and> (parseUrl_pathname ext reqUrl' = Some url \<longrightarrow>
            matchUrlWithSchema ext pathObjects reqUrl' = matchUrlWithSchema ext pathObjects reqUrl)
       \<and> map path (buildPathObjects ext paths) = map (\<lambda>(k, d). key_string k) paths
       \<and> map definition' (buildPathObjects ext paths) = map snd paths"
proof (intro conjI impI)
  assume "i < length pathObjects \<and> regexp (pathObjects ! i) url \<and>
            (\<forall>j<i. \<not> regexp (pathObjects ! j) url)"
  then obtain rest where "filter (\<lambda>obj. regexp obj url) pathObjects = pathObjects ! i # rest"
    using filter_first_match [of i pathObjects "\<lambda>obj. regexp obj url"] by blast
  with assms show "matchUrlWithSchema ext pathObjects reqUrl = Inr (definition' (pathObjects ! i))"
    by (simp add: matchUrlWithSchema_def)
next
  assume "\<forall>obj\<in>set pathObjects. \<not> regexp obj url"
  then have "filter (\<lambda>obj. regexp obj url) pathObjects = []"
    by (simp add: filter_empty_conv)
  with assms show "matchUrlWithSchema ext pathObjects reqUrl = Inr JNull"
    by (simp add: matchUrlWithSchema_def)
next
  assume "parseUrl_pathname ext reqUrl' = Some url"
  with assms show "matchUrlWithSchema ext pathObjects reqUrl' = matchUrlWithSchema ext pathObjects reqUrl"
    by (simp add: matchUrlWithSchema_def)
next
  show "map path (buildPathObjects ext paths) = map (\<lambda>(k, d). key_string k) paths"
    by (induction paths) (auto simp: buildPathObjects_def)
next
  show "map definition' (buildPathObjects ext paths) = map snd paths"
    by (induction paths) (auto simp: buildPathObjects_def)
qed

theorem matchUrlWithSchema_first_match_witness:
  "parseUrl_pathname sample_ext ''/items/special?x=1#top'' = Some ''/items/special''
   \<and> (0::nat) < length sample_pathObjects
   \<and> regexp (sample_pathObjects ! 0) ''/items/special''
   \<and> regexp (sample_pathObjects ! 1) ''/items/special''
   \<and> path (sample_pathObjects ! 0) = ''/items/{id}''
   \<and> matchUrlWithSchema sample_ext sample_pathObjects ''/items/special?x=1#top''
       = Inr (definition' (sample_pathObjects ! 0))
   \<and> parseUrl_pathname sample_ext ''/items/special'' = Some ''/items/special''
   \<and> matchUrlWithSchema sample_ext sample_pathObjects ''/items/special''
       = matchUrlWithSchema sample_ext sample_pathObjects ''/items/special?x=1#top''
   \<and> parseUrl_pathname sample_ext ''/orders?x=1'' = Some ''/orders''
   \<and> list_all (\<lambda>obj. \<not> regexp obj ''/orders'') sample_pathObjects
   \<and> matchUrlWithSchema sample_ext sample_pathObjects ''/orders?x=1'' = Inr JNull"
proof -
  have p1: "parseUrl_pathname sample_ext ''/items/special?x=1#top'' = Some ''/items/special''"
    by (simp add: sample_simps)
  have p2: "parseUrl_pathname sample_ext ''/orders?x=1'' = Some ''/orders''"
    by (simp add: sample_simps)
  have p3: "parseUrl_pathname sample_ext ''/items/special'' = Some ''/items/special''"
    by (simp add: sample_simps)
  have m0: "regexp (sample_pathObjects ! 0) ''/items/special''"
    by (simp add: sample_simps)
  have m1: "regexp (sample_pathObjects ! 1) ''/items/special''"
    by (simp add: sample_simps)
  have n: "list_all (\<lambda>obj. \<not> regexp obj ''/orders'') sample_pathObjects"
    by (simp add: sample_simps)
  have len: "(0::nat) < length sample_pathObjects"
    by (simp add: sample_simps)
  have pth: "path (sample_pathObjects ! 0) = ''/items/{id}''"
    by (simp add: sample_simps)
  note a = matchUrlWithSchema_first_match
             [OF p1, where i = 0 and pathObjects = sample_pathObjects
                and reqUrl' = "''/items/special''"]
  note b = matchUrlWithSchema_first_match [OF p2, where pathObjects = sample_pathObjects]
  from a len m0 p3 have
    "matchUrlWithSchema sample_ext sample_pathObjects ''/items/special?x=1#top''
       = Inr (definition' (sample_pathObjects ! 0))"
    "matchUrlWithSchema sample_ext sample_pathObjects ''/items/special''
       = matchUrlWithSchema sample_ext sample_pathObjects ''/items/special?x=1#top''"
    by simp_all
  moreover from b n have
    "matchUrlWithSchema sample_ext sample_pathObjects ''/orders?x=1'' = Inr JNull"
    by (simp add: list_all_iff)
  ultimately show ?thesis using p1 p2 p3 m0 m1 n len pth by simp
qed

lemmas request_simps = put_request_def get_request_def post_request_def

lemmas resolve_simps =
  resolveResponseModelSchema_def resolveRequestModelSchema_def matchUrlWithSchema_def
  response_schema_def request_schema_def finish_resolve_def decorateWithNullable_def
  status_or_200_def store_schema_def nullable_choice_def

subsection \<open>Errors that resolution can throw\<close>

lemma get_prop_error: "get_prop obj k = Inl e \<Longrightarrow> e = TypeError"
  by (cases obj; cases k) simp_all

lemma decorate_keys_error: "decorate_keys ks props = (props', Some e) \<Longrightarrow> e = TypeError"
proof (induction ks arbitrary: props)
  case Nil
  then show ?case by simp
next
  case (Cons k ks)
  then show ?case
    by (auto split: sum.splits if_splits dest: get_prop_error)
qed

lemma decorateWithNullable_error:
  "decorateWithNullable s = (s', Some e) \<Longrightarrow> e = TypeError"
  by (auto simp: decorateWithNullable_def split: if_splits sum.splits prod.splits
      dest: get_prop_error decorate_keys_error)

lemma matchUrlWithSchema_error:
  "matchUrlWithSchema ext pathObjects u = Inl e \<Longrightarrow> e = TypeError"
  by (auto simp: matchUrlWithSchema_def split: option.splits if_splits list.splits)

lemma response_schema_error: "response_schema pathObj m sc = Inl e \<Longrightarrow> e = TypeError"
  by (auto simp: response_schema_def split: if_splits sum.splits dest: get_prop_error)

lemma finish_resolve_error:
  "snd (finish_resolve ext opts pathObjects u found) = Inl e \<Longrightarrow> e = TypeError"
  by (auto simp: finish_resolve_def split: prod.splits if_splits option.splits
      dest: decorateWithNullable_error)

lemma resolveResponseModelSchema_error:
  "snd (resolveResponseModelSchema ext opts pathObjects req sc) = Inl e \<Longrightarrow> e = TypeError"
  by (auto simp: resolveResponseModelSchema_def split: sum.splits
      dest: matchUrlWithSchema_error response_schema_error finish_resolve_error)

lemma check_response_error:
  "snd (snd (check_response ext opts pathObjects req res v enc)) = Some e \<Longrightarrow>
   e = TypeError \<or> e = CompileError"
  using resolveResponseModelSchema_error [of ext opts pathObjects req "statusCode res"]
  by (auto simp: check_response_def split: prod.splits sum.splits if_splits option.splits)

subsection \<open>Response schema resolution\<close>

text \<open>
  C8. The response resolver does not return none when the method entry is absent.
  On the example contract, which declares only GET and PUT for \<open>/items/{id}\<close>, a POST
  to \<open>/items/7\<close> makes it throw a TypeError: line 51 reads
  \<open>pathObj[method].responses\<close> without the test of \<open>pathObj[method]\<close> that the
  request resolver makes on line 70. The request resolver returns \<open>null\<close> on the same
  request.
\<close>

theorem resolveResponseModelSchema_missing_method:
  "snd (resolveResponseModelSchema sample_ext sample_options sample_pathObjects post_request (Some 200))
     = Inl TypeError
   \<and> snd (resolveRequestModelSchema sample_ext sample_options sample_pathObjects post_request)
     = Inr JNull"
  by (simp add: resolve_simps sample_simps request_simps)

subsection \<open>Request validation stage\<close>

text \<open>
  C1. When the request schema resolves to a truthy schema, the engine rejects the
  parsed body and no \<open>requestValidationFn\<close> is configured, \<open>validateRequest\<close> sets
  status 400 and sends a JSON body whose \<open>message\<close> is the fixed text followed by the
  method and the URL. These are its only events: \<open>next\<close> is not called, and nothing
  is thrown.
\<close>

theorem validateRequest_rejects:
  assumes "snd (resolveRequestModelSchema ext opts pathObjects req) = Inr requestSchema"
    and "truthy requestSchema"
    and "ajv_compile ext requestSchema = Some validator"
    and "\<not> fst (validator (body req))"
    and "\<not> requestValidationFn opts"
  shows "validateRequest ext opts pathObjects req res =
           (fst (resolveRequestModelSchema ext opts pathObjects req),
            res\<lparr>statusCode := Some 400\<rparr>,
            [Status 400,
             Json (JObj [(Name ''message'',
                          JStr (''Response schema validation failed for ''
                                @ method' req @ originalUrl req))])],
            None)"
proof -
  obtain pathObjects' where r:
    "resolveRequestModelSchema ext opts pathObjects req = (pathObjects', Inr requestSchema)"
    using assms(1) by (cases "resolveRequestModelSchema ext opts pathObjects req") simp
  obtain errors where v: "validator (body req) = (False, errors)"
    using assms(4) by (cases "validator (body req)") simp
  show ?thesis
    using assms(2,3,5) by (simp add: validateRequest_def failure_message_def r v)
qed

theorem validateRequest_rejects_witness:
  "snd (resolveRequestModelSchema sample_ext sample_options sample_pathObjects put_request)
     = Inr (JObj [(Name ''type'', JStr ''object''),
                  (Name ''properties'',
                   JObj [(Name ''name'',
                          nullable_choice
                            (JObj [(Name ''type'', JStr ''string''),
                                   (Name ''x-nullable'', JBool True)])),
                         (Name ''size'', JObj [(Name ''type'', JStr ''number'')])])])
   \<and> \<not> accepted sample_ext
          (JObj [(Name ''type'', JStr ''object''),
                  (Name ''properties'',
                   JObj [(Name ''name'',
                          nullable_choice
                            (JObj [(Name ''type'', JStr ''string''),
                                   (Name ''x-nullable'', JBool True)])),
                         (Name ''size'', JObj [(Name ''type'', JStr ''number'')])])])
          (body put_request)
   \<and> \<not> requestValidationFn sample_options
   \<and> validateRequest sample_ext sample_options sample_pathObjects put_request sample_response =
       (fst (resolveRequestModelSchema sample_ext sample_options sample_pathObjects put_request),
        sample_response\<lparr>statusCode := Some 400\<rparr>,
        [Status 400,
         Json (JObj [(Name ''message'',
                      JStr ''Response schema validation failed for PUT/items/7?verbose=1'')])],
        None)"
proof -
  let ?s = "JObj [(Name ''type'', JStr ''object''),
                  (Name ''properties'',
                   JObj [(Name ''name'',
                          nullable_choice
                            (JObj [(Name ''type'', JStr ''string''),
                                   (Name ''x-nullable'', JBool True)])),
                         (Name ''size'', JObj [(Name ''type'', JStr ''number'')])])]"
  let ?v = "sample_validator ?s"
  have a: "snd (resolveRequestModelSchema sample_ext sample_options sample_pathObjects put_request)
             = Inr ?s"
    by (simp add: resolve_simps sample_simps request_simps)
  have b: "truthy ?s" by simp
  have c: "ajv_compile sample_ext ?s = Some ?v"
    by (simp add: sample_simps)
  have d: "\<not> fst (?v (body put_request))"
    by (simp add: sample_simps request_simps nullable_choice_def)
  have e: "\<not> requestValidationFn sample_options"
    by (simp add: sample_simps)
  have f: "\<not> accepted sample_ext ?s (body put_request)"
    using d by (simp add: accepted_def c)
  from validateRequest_rejects [OF a b c d e, of sample_response] a f e
  show ?thesis by (simp add: request_simps)
qed


subsection \<open>Response capture and validation stage\<close>

text \<open>
  C2. When the decoded response body is rejected by the resolved response schema: with
  no \<open>responseValidationFn\<close> configured the only event of the \<open>end\<close> interceptor is
  \<open>next(err)\<close>, where \<open>err.message\<close> is the fixed text followed by the method and the
  URL, so that the payload is not sent; with a \<open>responseValidationFn\<close> configured the
  callback is called with the request, the parsed value and the error list, and the
  payload is then sent through the original \<open>res.end\<close>.
\<close>

theorem end_hook_invalid_response:
  assumes "snd (end_collect ext (writtenData cap) d) = Inr val"
    and "\<not> debug_throws ext d enc"
    and "decode ext val enc = Inr v"
    and "snd (resolveResponseModelSchema ext opts pathObjects req (statusCode res))
           = Inr responseSchema"
    and "truthy responseSchema"
    and "ajv_compile ext responseSchema = Some validator"
    and "\<not> fst (validator v)"
  shows "end_hook ext opts pathObjects req res cap d enc =
           (fst (resolveResponseModelSchema ext opts pathObjects req (statusCode res)),
            res\<lparr>write_op := origWrite cap, end_op := origEnd cap\<rparr>,
            cap\<lparr>writtenData := fst (end_collect ext (writtenData cap) d)\<rparr>,
            (if responseValidationFn opts then
               [ResponseValidationFn req v (snd (validator v)),
                End (case v of JStr s \<Rightarrow> Plain v | _ \<Rightarrow> Plain (JSON_stringify ext v)) enc]
             else [Next (Some (JObj [(Name ''message'',
                     JStr (''Response schema validation failed for ''
                           @ method' req @ originalUrl req))]))]),
            None)"
proof -
  obtain written where c: "end_collect ext (writtenData cap) d = (written, Inr val)"
    using assms(1) by (cases "end_collect ext (writtenData cap) d") simp
  obtain pathObjects' where r:
    "resolveResponseModelSchema ext opts pathObjects req (statusCode res)
       = (pathObjects', Inr responseSchema)"
    using assms(4)
    by (cases "resolveResponseModelSchema ext opts pathObjects req (statusCode res)") simp
  obtain errors where w: "validator v = (False, errors)"
    using assms(7) by (cases "validator v") simp
  have k: "check_response ext opts pathObjects req
             (res\<lparr>write_op := origWrite cap, end_op := origEnd cap\<rparr>) v enc =
           (pathObjects',
            (if responseValidationFn opts then
               [ResponseValidationFn req v errors,
                End (case v of JStr s \<Rightarrow> Plain v | _ \<Rightarrow> Plain (JSON_stringify ext v)) enc]
             else [Next (Some (failure_message req))]),
            None)"
    using assms(5,6)
    by (simp add: check_response_def r w sendData_def is_string_def split: jsval.splits)
  show ?thesis
    using assms(2,3) by (simp add: end_hook_def c k r w failure_message_def)
qed


lemmas hook_simps =
  hooked_response_def sample_capture_def validateResponse_def write_hook_def
  end_collect_def data_truthy_def debug_throws_def decode_def parse_text_def

theorem end_hook_invalid_response_witness:
  "snd (end_collect sample_ext (writtenData sample_capture) (Buffer ''2'')) = Inr (Buffer ''42'')
   \<and> \<not> debug_throws sample_ext (Buffer ''2'') None
   \<and> decode sample_ext (Buffer ''42'') None = Inr (JNum 42)
   \<and> snd (resolveResponseModelSchema sample_ext sample_options sample_pathObjects get_request
            (statusCode hooked_response))
        = Inr (fst (decorateWithNullable item_schema))
   \<and> truthy (fst (decorateWithNullable item_schema))
   \<and> \<not> accepted sample_ext (fst (decorateWithNullable item_schema)) (JNum 42)
   \<and> end_hook sample_ext sample_options sample_pathObjects get_request hooked_response
        sample_capture (Buffer ''2'') None =
       (fst (resolveResponseModelSchema sample_ext sample_options sample_pathObjects get_request
               (statusCode hooked_response)),
        sample_response,
        sample_capture\<lparr>writtenData := [Buffer ''4'', Buffer ''2'']\<rparr>,
        [Next (Some (JObj [(Name ''message'',
                 JStr ''Response schema validation failed for GET/items/7'')]))],
        None)
   \<and> end_hook sample_ext (sample_options\<lparr>responseValidationFn := True\<rparr>) sample_pathObjects
        get_request hooked_response sample_capture (Buffer ''2'') None =
       (fst (resolveResponseModelSchema sample_ext sample_options sample_pathObjects get_request
               (statusCode hooked_response)),
        sample_response,
        sample_capture\<lparr>writtenData := [Buffer ''4'', Buffer ''2'']\<rparr>,
        [ResponseValidationFn get_request (JNum 42) (JArr [JStr ''invalid'']),
         End (Plain (JStr ''42'')) None],
        None)"
proof -
  let ?s = "fst (decorateWithNullable item_schema)"
  let ?v = "sample_validator ?s"
  let ?o = "sample_options\<lparr>responseValidationFn := True\<rparr>"
  have s: "?s = JObj [(Name ''type'', JStr ''object''),
                  (Name ''properties'',
                   JObj [(Name ''name'',
                          nullable_choice
                            (JObj [(Name ''type'', JStr ''string''),
                                   (Name ''x-nullable'', JBool True)])),
                         (Name ''size'', JObj [(Name ''type'', JStr ''number'')])])]"
    by (simp add: decorateWithNullable_def item_schema_def)
  have a: "snd (end_collect sample_ext (writtenData sample_capture) (Buffer ''2''))
             = Inr (Buffer ''42'')"
    by (simp add: hook_simps)
  have a': "fst (end_collect sample_ext (writtenData sample_capture) (Buffer ''2''))
             = [Buffer ''4'', Buffer ''2'']"
    by (simp add: hook_simps)
  have b: "\<not> debug_throws sample_ext (Buffer ''2'') None"
    by (simp add: hook_simps sample_simps)
  have c: "decode sample_ext (Buffer ''42'') None = Inr (JNum 42)"
    by (simp add: hook_simps sample_simps)
  have d: "snd (resolveResponseModelSchema sample_ext sample_options sample_pathObjects
                  get_request (statusCode hooked_response)) = Inr ?s"
    unfolding s by (simp add: resolve_simps sample_simps request_simps hook_simps)
  have d': "snd (resolveResponseModelSchema sample_ext ?o sample_pathObjects
                  get_request (statusCode hooked_response)) = Inr ?s"
    unfolding s by (simp add: resolve_simps sample_simps request_simps hook_simps)
  have d'': "fst (resolveResponseModelSchema sample_ext ?o sample_pathObjects
                  get_request (statusCode hooked_response))
             = fst (resolveResponseModelSchema sample_ext sample_options sample_pathObjects
                  get_request (statusCode hooked_response))"
    by (simp add: resolveResponseModelSchema_def finish_resolve_def sample_options_def
        split: sum.splits prod.splits)
  have e: "truthy ?s" unfolding s by simp
  have f: "ajv_compile sample_ext ?s = Some ?v"
    unfolding s by (simp add: sample_simps)
  have g: "\<not> fst (?v (JNum 42))"
    unfolding s by (simp add: sample_simps nullable_choice_def)
  have h: "\<not> accepted sample_ext ?s (JNum 42)"
    using g by (simp add: accepted_def f)
  have r: "hooked_response\<lparr>write_op := origWrite sample_capture,
             end_op := origEnd sample_capture\<rparr> = sample_response"
    by (simp add: hook_simps sample_simps)
  have j: "JSON_stringify sample_ext (JNum 42) = JStr ''42''"
    by (simp add: sample_simps)
  note t1 = end_hook_invalid_response [OF a b c d e f g]
  note t2 = end_hook_invalid_response [OF a b c d' e f g]
  have n1: "\<not> responseValidationFn sample_options" by (simp add: sample_simps)
  have n2: "responseValidationFn ?o" by simp
  have g': "schema_accepts ?s (JNum 42) = False"
    using g by (simp add: sample_validator_def)
  have m: "method' get_request = ''GET''" "originalUrl get_request = ''/items/7''"
    by (simp_all add: request_simps)
  from t1 have x1:
    "end_hook sample_ext sample_options sample_pathObjects get_request hooked_response
        sample_capture (Buffer ''2'') None =
       (fst (resolveResponseModelSchema sample_ext sample_options sample_pathObjects get_request
               (statusCode hooked_response)),
        sample_response,
        sample_capture\<lparr>writtenData := [Buffer ''4'', Buffer ''2'']\<rparr>,
        [Next (Some (JObj [(Name ''message'',
                 JStr ''Response schema validation failed for GET/items/7'')]))],
        None)"
    by (simp add: a' r n1 m)
  from t2 have x2:
    "end_hook sample_ext ?o sample_pathObjects
        get_request hooked_response sample_capture (Buffer ''2'') None =
       (fst (resolveResponseModelSchema sample_ext sample_options sample_pathObjects get_request
               (statusCode hooked_response)),
        sample_response,
        sample_capture\<lparr>writtenData := [Buffer ''4'', Buffer ''2'']\<rparr>,
        [ResponseValidationFn get_request (JNum 42) (JArr [JStr ''invalid'']),
         End (Plain (JStr ''42'')) None],
        None)"
    by (simp add: a' r j d'' g' sample_validator_def)
  from a b c d e h x1 x2 show ?thesis by blast
qed

text \<open>Which errors the collection and the decoding can throw.\<close>

lemma Buffer_concat_error: "Buffer_concat ds = Inl e \<Longrightarrow> e = TypeError"
  by (induction ds rule: Buffer_concat.induct) (auto split: sum.splits)

lemma end_collect_error: "snd (end_collect ext written d) = Inl e \<Longrightarrow> e = TypeError"
  by (auto simp: end_collect_def dest: Buffer_concat_error split: if_splits data.splits sum.splits)

lemma end_collect_value:
  "snd (end_collect ext written d) = Inr val \<Longrightarrow> (\<exists>b. val = Buffer b) \<or> (\<exists>v. val = Plain v)"
  by (auto simp: end_collect_def split: if_splits data.splits sum.splits)

lemma decode_error:
  assumes "decode ext val enc = Inl e"
  shows "e = TypeError
       \<or> (e = decode_fault
          \<and> (\<exists>s. (val = Plain (JStr s) \<or> val = StringObject s
                   \<or> (\<exists>b. val = Buffer b \<and> Buffer_toString ext b enc = Some s))
                  \<and> JSON_parse ext s = None))"
  using assms
  by (auto simp: decode_def parse_text_def split: data.splits option.splits jsval.splits)

lemma end_hook_fault_origin:
  assumes "snd (snd (snd (snd (end_hook ext opts pathObjects req res cap d enc))))
             = Some (SyntaxError marker msg)"
  shows "SyntaxError marker msg = decode_fault \<and> \<not> debug_throws ext d enc
       \<and> (\<exists>val. snd (end_collect ext (writtenData cap) d) = Inr val
                 \<and> decode ext val enc = Inl decode_fault)"
proof -
  obtain written r where c: "end_collect ext (writtenData cap) d = (written, r)"
    by (cases "end_collect ext (writtenData cap) d") simp
  show ?thesis
  proof (cases r)
    case (Inl e)
    then have "e = TypeError" using end_collect_error [of ext "writtenData cap" d e] c by simp
    with assms c Inl show ?thesis by (simp add: end_hook_def)
  next
    case (Inr val)
    note v = this
    show ?thesis
    proof (cases "debug_throws ext d enc")
      case True
      with assms c v show ?thesis by (simp add: end_hook_def)
    next
      case False
      note nd = this
      show ?thesis
      proof (cases "decode ext val enc")
        case (Inl e)
        with assms c v nd have e: "e = SyntaxError marker msg" by (simp add: end_hook_def)
        from decode_error [OF Inl] e have "e = decode_fault" by auto
        with e Inl c v nd show ?thesis by auto
      next
        case (Inr w)
        obtain p' ev r' where k: "check_response ext opts pathObjects req
             (res\<lparr>write_op := origWrite cap, end_op := origEnd cap\<rparr>) w enc = (p', ev, r')"
          by (cases "check_response ext opts pathObjects req
             (res\<lparr>write_op := origWrite cap, end_op := origEnd cap\<rparr>) w enc") auto
        with assms c v nd Inr have "r' = Some (SyntaxError marker msg)"
          by (simp add: end_hook_def)
        with check_response_error [of ext opts pathObjects req
            "res\<lparr>write_op := origWrite cap, end_op := origEnd cap\<rparr>" w enc "SyntaxError marker msg"] k
        show ?thesis by simp
      qed
    qed
  qed
qed

text \<open>
  C6, as stated, fails. The example contract has a schema for status 200 of
  \<open>GET /items/{id}\<close>. When the handler ends the response without a body (nothing
  written, and \<open>end\<close> called without data or with the empty string), \<open>val\<close> stays
  \<open>undefined\<close>, nothing is parsed, and \<open>undefined\<close> is validated against the schema:
  the outcome is \<open>next(err)\<close> with the message of a schema-validation failure, and
  nothing is thrown, although the empty body is not valid JSON. And when the handler
  has written the text \<open>x\<close> as a primitive string, \<open>Buffer.concat\<close> throws a
  \<open>TypeError\<close>, which carries no marker.
\<close>

theorem end_hook_empty_body:
  "snd (resolveResponseModelSchema sample_ext sample_options sample_pathObjects get_request
          (statusCode hooked_response))
     = Inr (fst (decorateWithNullable item_schema))
   \<and> truthy (fst (decorateWithNullable item_schema))
   \<and> JSON_parse sample_ext [] = None
   \<and> end_hook sample_ext sample_options sample_pathObjects get_request hooked_response
       (fst (snd (validateResponse sample_response))) (Plain JUndefined) None =
       (fst (resolveResponseModelSchema sample_ext sample_options sample_pathObjects get_request
               (statusCode hooked_response)),
        sample_response,
        fst (snd (validateResponse sample_response)),
        [Next (Some (JObj [(Name ''message'',
                 JStr ''Response schema validation failed for GET/items/7'')]))],
        None)
   \<and> end_hook sample_ext sample_options sample_pathObjects get_request hooked_response
       (fst (snd (validateResponse sample_response))) (Plain (JStr [])) None =
       (fst (resolveResponseModelSchema sample_ext sample_options sample_pathObjects get_request
               (statusCode hooked_response)),
        sample_response,
        fst (snd (validateResponse sample_response)),
        [Next (Some (JObj [(Name ''message'',
                 JStr ''Response schema validation failed for GET/items/7'')]))],
        None)
   \<and> JSON_parse sample_ext ''x'' = None
   \<and> end_hook sample_ext sample_options sample_pathObjects get_request hooked_response
       (write_hook (fst (snd (validateResponse sample_response))) (Plain (JStr ''x'')))
       (Plain JUndefined) None =
       (sample_pathObjects, hooked_response,
        write_hook (fst (snd (validateResponse sample_response))) (Plain (JStr ''x'')),
        [], Some TypeError)"
proof -
  let ?s = "fst (decorateWithNullable item_schema)"
  have s: "?s = JObj [(Name ''type'', JStr ''object''),
                  (Name ''properties'',
                   JObj [(Name ''name'',
                          nullable_choice
                            (JObj [(Name ''type'', JStr ''string''),
                                   (Name ''x-nullable'', JBool True)])),
                         (Name ''size'', JObj [(Name ''type'', JStr ''number'')])])]"
    by (simp add: decorateWithNullable_def item_schema_def)
  have d: "snd (resolveResponseModelSchema sample_ext sample_options sample_pathObjects
                  get_request (statusCode hooked_response)) = Inr ?s"
    unfolding s by (simp add: resolve_simps sample_simps request_simps hook_simps)
  have d2: "snd (resolveResponseModelSchema sample_ext sample_options sample_pathObjects
                  get_request (Some 200)) = Inr ?s"
    using d by (simp add: hook_simps sample_simps)
  have e: "truthy ?s" unfolding s by simp
  have f: "ajv_compile sample_ext ?s = Some (sample_validator ?s)"
    unfolding s by (simp add: sample_simps)
  have g: "\<not> schema_accepts ?s JUndefined"
    unfolding s by (simp add: sample_simps nullable_choice_def)
  have p: "JSON_parse sample_ext [] = None" "JSON_parse sample_ext ''x'' = None"
    by (simp_all add: sample_simps)
  obtain po where r: "resolveResponseModelSchema sample_ext sample_options sample_pathObjects
                  get_request (Some 200) = (po, Inr ?s)"
    using d2 by (cases "resolveResponseModelSchema sample_ext sample_options sample_pathObjects
                  get_request (Some 200)") simp
  have n: "\<not> responseValidationFn sample_options" by (simp add: sample_simps)
  have m: "method' get_request = ''GET''" "originalUrl get_request = ''/items/7''"
    by (simp_all add: request_simps)
  have k: "check_response sample_ext sample_options sample_pathObjects get_request
             sample_response JUndefined None =
           (po, [Next (Some (JObj [(Name ''message'',
                 JStr ''Response schema validation failed for GET/items/7'')]))], None)"
    using e f g n
    by (simp add: check_response_def sample_response_def r sample_validator_def
        failure_message_def m)
  have x1: "end_hook sample_ext sample_options sample_pathObjects get_request hooked_response
       (fst (snd (validateResponse sample_response))) (Plain JUndefined) None =
       (po, sample_response, fst (snd (validateResponse sample_response)),
        [Next (Some (JObj [(Name ''message'',
                 JStr ''Response schema validation failed for GET/items/7'')]))],
        None)"
    using k by (simp add: end_hook_def hook_simps sample_response_def)
  have x2: "end_hook sample_ext sample_options sample_pathObjects get_request hooked_response
       (fst (snd (validateResponse sample_response))) (Plain (JStr [])) None =
       (po, sample_response, fst (snd (validateResponse sample_response)),
        [Next (Some (JObj [(Name ''message'',
                 JStr ''Response schema validation failed for GET/items/7'')]))],
        None)"
    using k by (simp add: end_hook_def hook_simps sample_response_def)
  have x3: "end_hook sample_ext sample_options sample_pathObjects get_request hooked_response
       (write_hook (fst (snd (validateResponse sample_response))) (Plain (JStr ''x'')))
       (Plain JUndefined) None =
       (sample_pathObjects, hooked_response,
        write_hook (fst (snd (validateResponse sample_response))) (Plain (JStr ''x'')),
        [], Some TypeError)"
    by (simp add: end_hook_def hook_simps sample_response_def)
  have po: "po = fst (resolveResponseModelSchema sample_ext sample_options sample_pathObjects
               get_request (statusCode hooked_response))"
    using r by (simp add: hook_simps sample_simps sample_response_def)
  from d e p x1 x2 x3 show ?thesis unfolding po by blast
qed

text \<open>
  C6, amended. When the body reaches \<open>JSON.parse\<close> as text (a primitive string passed
  to \<open>end\<close> by itself, or the collected buffers rendered as text) and \<open>JSON.parse\<close>
  rejects it, the \<open>end\<close> interceptor throws the parse error with
  \<open>failedValidation\<close> set to \<open>true\<close> and the message replaced; nothing is sent and
  \<open>next\<close> is not called. This happens before the schema is resolved, hence whether
  or not a schema applies. Conversely, whenever the interceptor throws an error of this
  kind, it carries the marker and the message, and a text that \<open>JSON.parse\<close> rejects
  had reached it. When nothing was written and the data passed to \<open>end\<close> is falsy,
  nothing is parsed and \<open>undefined\<close> goes to the resolution of the schema and to
  validation. Resolution and validation of a decoded body never throw an error of this
  kind, whatever the verdict.
\<close>

theorem end_hook_decode_fault:
  "(snd (end_collect ext (writtenData cap) d) = Inr val
      \<and> \<not> debug_throws ext d enc
      \<and> (val = Plain (JStr s) \<or> (\<exists>b. val = Buffer b \<and> Buffer_toString ext b enc = Some s))
      \<and> JSON_parse ext s = None \<longrightarrow>
    end_hook ext opts pathObjects req res cap d enc =
      (pathObjects,
       res\<lparr>write_op := origWrite cap, end_op := origEnd cap\<rparr>,
       cap\<lparr>writtenData := fst (end_collect ext (writtenData cap) d)\<rparr>,
       [],
       Some (SyntaxError True ''Value expected to be an array/object but is not'')))
   \<and> (snd (snd (snd (snd (end_hook ext opts pathObjects req res cap d enc))))
        = Some (SyntaxError marker msg) \<longrightarrow>
      marker \<and> msg = ''Value expected to be an array/object but is not''
      \<and> \<not> debug_throws ext d enc
      \<and> (\<exists>t. (snd (end_collect ext (writtenData cap) d) = Inr (Plain (JStr t))
               \<or> (\<exists>b. snd (end_collect ext (writtenData cap) d) = Inr (Buffer b)
                      \<and> Buffer_toString ext b enc = Some t))
              \<and> JSON_parse ext t = None))
   \<and> (writtenData cap = [] \<and> \<not> data_truthy d \<longrightarrow>
        end_hook ext opts pathObjects req res cap d enc =
          (case check_response ext opts pathObjects req
                  (res\<lparr>write_op := origWrite cap, end_op := origEnd cap\<rparr>) JUndefined enc of
             (pathObjects', events, r) \<Rightarrow>
               (pathObjects', res\<lparr>write_op := origWrite cap, end_op := origEnd cap\<rparr>,
                cap\<lparr>writtenData := []\<rparr>, events, r)))
   \<and> (\<forall>pathObjects' res' v marker' msg'.
         snd (snd (check_response ext opts pathObjects' req res' v enc))
           \<noteq> Some (SyntaxError marker' msg'))"
proof (intro conjI impI)
  assume a: "snd (end_collect ext (writtenData cap) d) = Inr val
      \<and> \<not> debug_throws ext d enc
      \<and> (val = Plain (JStr s) \<or> (\<exists>b. val = Buffer b \<and> Buffer_toString ext b enc = Some s))
      \<and> JSON_parse ext s = None"
  obtain written where c: "end_collect ext (writtenData cap) d = (written, Inr val)"
    using a by (cases "end_collect ext (writtenData cap) d") simp
  have "decode ext val enc = Inl decode_fault"
    using a by (auto simp: decode_def parse_text_def)
  then show "end_hook ext opts pathObjects req res cap d enc =
           (pathObjects,
            res\<lparr>write_op := origWrite cap, end_op := origEnd cap\<rparr>,
            cap\<lparr>writtenData := fst (end_collect ext (writtenData cap) d)\<rparr>,
            [],
            Some (SyntaxError True ''Value expected to be an array/object but is not''))"
    using a by (simp add: end_hook_def c decode_fault_def)
next
  assume a: "snd (snd (snd (snd (end_hook ext opts pathObjects req res cap d enc))))
        = Some (SyntaxError marker msg)"
  note o = end_hook_fault_origin [OF a]
  from o show "marker" by (simp add: decode_fault_def)
  from o show "msg = ''Value expected to be an array/object but is not''"
    by (simp add: decode_fault_def)
  from o show "\<not> debug_throws ext d enc" by simp
  from o obtain val where v: "snd (end_collect ext (writtenData cap) d) = Inr val"
    and f: "decode ext val enc = Inl decode_fault" by blast
  from decode_error [OF f] end_collect_value [OF v] v
  show "\<exists>t. (snd (end_collect ext (writtenData cap) d) = Inr (Plain (JStr t))
               \<or> (\<exists>b. snd (end_collect ext (writtenData cap) d) = Inr (Buffer b)
                      \<and> Buffer_toString ext b enc = Some t))
              \<and> JSON_parse ext t = None"
    by (auto simp: decode_fault_def)
next
  assume a: "writtenData cap = [] \<and> \<not> data_truthy d"
  then have c: "end_collect ext (writtenData cap) d = ([], Inr (Plain JUndefined))"
    by (simp add: end_collect_def)
  from a have nd: "\<not> debug_throws ext d enc"
    by (auto simp: debug_throws_def data_truthy_def split: data.splits)
  show "end_hook ext opts pathObjects req res cap d enc =
          (case check_response ext opts pathObjects req
                  (res\<lparr>write_op := origWrite cap, end_op := origEnd cap\<rparr>) JUndefined enc of
             (pathObjects', events, r) \<Rightarrow>
               (pathObjects', res\<lparr>write_op := origWrite cap, end_op := origEnd cap\<rparr>,
                cap\<lparr>writtenData := []\<rparr>, events, r))"
    using nd by (simp add: end_hook_def c decode_def split: prod.splits)
next
  show "\<forall>pathObjects' res' v marker' msg'.
             snd (snd (check_response ext opts pathObjects' req res' v enc))
               \<noteq> Some (SyntaxError marker' msg')"
    using check_response_error by blast
qed

theorem end_hook_decode_fault_witness:
  "snd (end_collect sample_ext (writtenData sample_capture) (Buffer ''x'')) = Inr (Buffer ''4x'')
   \<and> \<not> debug_throws sample_ext (Buffer ''x'') None
   \<and> Buffer_toString sample_ext ''4x'' None = Some ''4x''
   \<and> JSON_parse sample_ext ''4x'' = None
   \<and> end_hook sample_ext sample_options sample_pathObjects get_request hooked_response
        sample_capture (Buffer ''x'') None =
       (sample_pathObjects, sample_response,
        sample_capture\<lparr>writtenData := [Buffer ''4'', Buffer ''x'']\<rparr>,
        [],
        Some (SyntaxError True ''Value expected to be an array/object but is not''))
   \<and> failedValidation (SyntaxError True ''Value expected to be an array/object but is not'')
   \<and> snd (end_collect sample_ext [] (Plain (JStr ''x''))) = Inr (Plain (JStr ''x''))
   \<and> JSON_parse sample_ext ''x'' = None
   \<and> end_hook sample_ext sample_options sample_pathObjects get_request hooked_response
        (fst (snd (validateResponse sample_response))) (Plain (JStr ''x'')) None =
       (sample_pathObjects, sample_response,
        fst (snd (validateResponse sample_response)),
        [],
        Some (SyntaxError True ''Value expected to be an array/object but is not''))
   \<and> \<not> data_truthy (Plain JUndefined)
   \<and> end_hook sample_ext sample_options sample_pathObjects get_request hooked_response
        (fst (snd (validateResponse sample_response))) (Plain JUndefined) None =
       (case check_response sample_ext sample_options sample_pathObjects get_request
               sample_response JUndefined None of
          (pathObjects', events, r) \<Rightarrow>
            (pathObjects', sample_response, fst (snd (validateResponse sample_response)),
             events, r))"
proof -
  let ?c0 = "fst (snd (validateResponse sample_response))"
  have a: "snd (end_collect sample_ext (writtenData sample_capture) (Buffer ''x''))
             = Inr (Buffer ''4x'')"
    by (simp add: hook_simps)
  have a': "fst (end_collect sample_ext (writtenData sample_capture) (Buffer ''x''))
             = [Buffer ''4'', Buffer ''x'']"
    by (simp add: hook_simps)
  have b: "\<not> debug_throws sample_ext (Buffer ''x'') None"
    by (simp add: hook_simps sample_simps)
  have c: "Buffer_toString sample_ext ''4x'' None = Some ''4x''"
    by (simp add: sample_simps)
  have c': "Buffer ''4x'' = Plain (JStr ''4x'')
            \<or> (\<exists>b. Buffer ''4x'' = Buffer b \<and> Buffer_toString sample_ext b None = Some ''4x'')"
    using c by simp
  have d: "JSON_parse sample_ext ''4x'' = None"
    by (simp add: sample_simps)
  have r: "hooked_response\<lparr>write_op := origWrite sample_capture,
             end_op := origEnd sample_capture\<rparr> = sample_response"
    by (simp add: hook_simps sample_simps)
  have a2: "snd (end_collect sample_ext (writtenData ?c0) (Plain (JStr ''x'')))
             = Inr (Plain (JStr ''x''))"
    by (simp add: hook_simps)
  have a2': "fst (end_collect sample_ext (writtenData ?c0) (Plain (JStr ''x''))) = []"
    by (simp add: hook_simps)
  have w0: "writtenData ?c0 = []" by (simp add: hook_simps)
  have b2: "\<not> debug_throws sample_ext (Plain (JStr ''x'')) None"
    by (simp add: hook_simps)
  have d2: "JSON_parse sample_ext ''x'' = None"
    by (simp add: sample_simps)
  have r2: "hooked_response\<lparr>write_op := origWrite ?c0, end_op := origEnd ?c0\<rparr>
              = sample_response"
    by (simp add: hook_simps sample_simps)
  have u: "?c0\<lparr>writtenData := []\<rparr> = ?c0" by (simp add: hook_simps)
  have h1: "snd (end_collect sample_ext (writtenData sample_capture) (Buffer ''x''))
               = Inr (Buffer ''4x'')
      \<and> \<not> debug_throws sample_ext (Buffer ''x'') None
      \<and> (Buffer ''4x'' = Plain (JStr ''4x'')
           \<or> (\<exists>b. Buffer ''4x'' = Buffer b \<and> Buffer_toString sample_ext b None = Some ''4x''))
      \<and> JSON_parse sample_ext ''4x'' = None"
    by (intro conjI) (rule a b c' d)+
  from end_hook_decode_fault [of sample_ext sample_capture "Buffer ''x''" "Buffer ''4x''" None
      "''4x''" sample_options sample_pathObjects get_request hooked_response,
      THEN conjunct1, THEN mp, OF h1]
  have x1: "end_hook sample_ext sample_options sample_pathObjects get_request hooked_response
        sample_capture (Buffer ''x'') None =
       (sample_pathObjects, sample_response,
        sample_capture\<lparr>writtenData := [Buffer ''4'', Buffer ''x'']\<rparr>,
        [],
        Some (SyntaxError True ''Value expected to be an array/object but is not''))"
    by (simp add: a' r)
  have c2: "Plain (JStr ''x'') = Plain (JStr ''x'')
            \<or> (\<exists>b. Plain (JStr ''x'') = Buffer b
                   \<and> Buffer_toString sample_ext b None = Some ''x'')"
    by simp
  have h2: "snd (end_collect sample_ext (writtenData ?c0) (Plain (JStr ''x'')))
               = Inr (Plain (JStr ''x''))
      \<and> \<not> debug_throws sample_ext (Plain (JStr ''x'')) None
      \<and> (Plain (JStr ''x'') = Plain (JStr ''x'')
           \<or> (\<exists>b. Plain (JStr ''x'') = Buffer b
                  \<and> Buffer_toString sample_ext b None = Some ''x''))
      \<and> JSON_parse sample_ext ''x'' = None"
    by (intro conjI) (rule a2 b2 c2 d2)+
  from end_hook_decode_fault [of sample_ext ?c0 "Plain (JStr ''x'')" "Plain (JStr ''x'')" None
      "''x''" sample_options sample_pathObjects get_request hooked_response,
      THEN conjunct1, THEN mp, OF h2]
  have x2: "end_hook sample_ext sample_options sample_pathObjects get_request hooked_response
        ?c0 (Plain (JStr ''x'')) None =
       (sample_pathObjects, sample_response, ?c0, [],
        Some (SyntaxError True ''Value expected to be an array/object but is not''))"
    by (simp only: a2' r2 u)
  have e4: "snd (snd (snd (snd (end_hook sample_ext sample_options sample_pathObjects
                                  get_request hooked_response sample_capture (Buffer ''x'') None))))
              = Some (SyntaxError True ''Value expected to be an array/object but is not'')"
    by (simp only: x1 snd_conv)
  from end_hook_decode_fault
         [where ext = sample_ext and cap = sample_capture and d = "Buffer ''x''" and enc = None
            and opts = sample_options and pathObjects = sample_pathObjects
            and req = get_request and res = hooked_response and marker = True
            and msg = "''Value expected to be an array/object but is not''",
          THEN conjunct2, THEN conjunct1, THEN mp, OF e4]
  have b': "\<not> debug_throws sample_ext (Buffer ''x'') None"
    by (rule conjunct2 [THEN conjunct2, THEN conjunct1])
  have fv: "failedValidation (SyntaxError True ''Value expected to be an array/object but is not'')"
    by simp
  have a3: "snd (end_collect sample_ext [] (Plain (JStr ''x''))) = Inr (Plain (JStr ''x''))"
    using a2 by (simp only: w0)
  have nt: "\<not> data_truthy (Plain JUndefined)" by (simp add: data_truthy_def)
  from end_hook_decode_fault
         [where ext = sample_ext and cap = ?c0 and d = "Plain JUndefined" and enc = None
            and opts = sample_options and pathObjects = sample_pathObjects
            and req = get_request and res = hooked_response,
          THEN conjunct2, THEN conjunct2, THEN conjunct1, THEN mp, OF conjI [OF w0 nt]]
  have x3: "end_hook sample_ext sample_options sample_pathObjects get_request hooked_response
        ?c0 (Plain JUndefined) None =
       (case check_response sample_ext sample_options sample_pathObjects get_request
               sample_response JUndefined None of
          (pathObjects', events, r) \<Rightarrow> (pathObjects', sample_response, ?c0, events, r))"
    by (simp only: r2 u)
  show ?thesis
    by (intro conjI) (rule a b' c d x1 fv a3 d2 x2 nt x3)+
qed

subsection \<open>The middleware\<close>

text \<open>
  C10. With both stages enabled, which is what \<open>init\<close> sets when the two options are
  left out, \<open>validate\<close> runs the response stage after the request stage whenever the
  request stage returns. If the request has no schema or passes validation, the
  events are two calls of \<open>next()\<close>. If the request stage has rejected the request
  with status 400, the interceptors are installed all the same and \<open>next()\<close> is called
  after the rejection was sent.
\<close>

theorem validate_runs_both_stages:
  assumes "validateRequestOpt opts" and "validateResponseOpt opts"
    and "snd (resolveRequestModelSchema ext opts pathObjects req) = Inr requestSchema"
  shows "(\<not> truthy requestSchema \<or>
            (\<exists>validator. ajv_compile ext requestSchema = Some validator
                         \<and> fst (validator (body req))) \<longrightarrow>
          validate ext opts pathObjects req res =
            (fst (resolveRequestModelSchema ext opts pathObjects req),
             res\<lparr>write_op := Interceptor, end_op := Interceptor\<rparr>,
             Some \<lparr>origEnd = end_op res, origWrite = write_op res, writtenData = []\<rparr>,
             [Next None, Next None],
             None))
       \<and> (truthy requestSchema \<and>
            (\<exists>validator. ajv_compile ext requestSchema = Some validator
                         \<and> \<not> fst (validator (body req))) \<and>
            \<not> requestValidationFn opts \<longrightarrow>
          validate ext opts pathObjects req res =
            (fst (resolveRequestModelSchema ext opts pathObjects req),
             res\<lparr>statusCode := Some 400, write_op := Interceptor, end_op := Interceptor\<rparr>,
             Some \<lparr>origEnd = end_op res, origWrite = write_op res, writtenData = []\<rparr>,
             [Status 400, Json (failure_message req), Next None],
             None))
       \<and> (init ext given = Inr (opts', pathObjects') \<and>
            validateRequest_given given = JUndefined \<and>
            validateResponse_given given = JUndefined \<longrightarrow>
          validateRequestOpt opts' \<and> validateResponseOpt opts')"
proof -
  obtain state where r:
    "resolveRequestModelSchema ext opts pathObjects req = (state, Inr requestSchema)"
    using assms(3) by (cases "resolveRequestModelSchema ext opts pathObjects req") simp
  have pass: "validate ext opts pathObjects req res =
            (state, res\<lparr>write_op := Interceptor, end_op := Interceptor\<rparr>,
             Some \<lparr>origEnd = end_op res, origWrite = write_op res, writtenData = []\<rparr>,
             [Next None, Next None], None)"
    if "\<not> truthy requestSchema \<or>
            (\<exists>validator. ajv_compile ext requestSchema = Some validator
                         \<and> fst (validator (body req)))"
  proof -
    have "validateRequest ext opts pathObjects req res = (state, res, [Next None], None)"
      using that by (auto simp: validateRequest_def r split: prod.splits)
    then show ?thesis
      using assms(1,2) by (simp add: validate_def validateResponse_def)
  qed
  have reject: "validate ext opts pathObjects req res =
            (state,
             res\<lparr>statusCode := Some 400, write_op := Interceptor, end_op := Interceptor\<rparr>,
             Some \<lparr>origEnd = end_op res, origWrite = write_op res, writtenData = []\<rparr>,
             [Status 400, Json (failure_message req), Next None], None)"
    if "truthy requestSchema \<and>
            (\<exists>validator. ajv_compile ext requestSchema = Some validator
                         \<and> \<not> fst (validator (body req))) \<and>
            \<not> requestValidationFn opts"
  proof -
    have "validateRequest ext opts pathObjects req res =
            (state, res\<lparr>statusCode := Some 400\<rparr>,
             [Status 400, Json (failure_message req)], None)"
      using that by (auto simp: validateRequest_def r split: prod.splits)
    then show ?thesis
      using assms(1,2) by (simp add: validate_def validateResponse_def)
  qed
  have dflt: "validateRequestOpt opts' \<and> validateResponseOpt opts'"
    if "init ext given = Inr (opts', pathObjects') \<and>
            validateRequest_given given = JUndefined \<and>
            validateResponse_given given = JUndefined"
    using that by (auto simp: init_def default_true_def split: sum.splits if_splits)
  from pass reject dflt show ?thesis by (simp add: r)
qed


theorem validate_runs_both_stages_witness:
  "validateRequestOpt sample_options \<and> validateResponseOpt sample_options
   \<and> init sample_ext sample_given = Inr (sample_options, sample_pathObjects)
   \<and> validateRequest_given sample_given = JUndefined
   \<and> validateResponse_given sample_given = JUndefined
   \<and> snd (resolveRequestModelSchema sample_ext sample_options sample_pathObjects get_request)
       = Inr JNull
   \<and> validate sample_ext sample_options sample_pathObjects get_request sample_response =
       (fst (resolveRequestModelSchema sample_ext sample_options sample_pathObjects get_request),
        hooked_response,
        Some \<lparr>origEnd = Original, origWrite = Original, writtenData = []\<rparr>,
        [Next None, Next None],
        None)
   \<and> snd (resolveRequestModelSchema sample_ext sample_options sample_pathObjects put_request)
       = Inr (fst (decorateWithNullable item_schema))
   \<and> truthy (fst (decorateWithNullable item_schema))
   \<and> \<not> accepted sample_ext (fst (decorateWithNullable item_schema)) (body put_request)
   \<and> \<not> requestValidationFn sample_options
   \<and> validate sample_ext sample_options sample_pathObjects put_request sample_response =
       (fst (resolveRequestModelSchema sample_ext sample_options sample_pathObjects put_request),
        hooked_response\<lparr>statusCode := Some 400\<rparr>,
        Some \<lparr>origEnd = Original, origWrite = Original, writtenData = []\<rparr>,
        [Status 400,
         Json (JObj [(Name ''message'',
                      JStr ''Response schema validation failed for PUT/items/7?verbose=1'')]),
         Next None],
        None)"
proof -
  let ?s = "fst (decorateWithNullable item_schema)"
  let ?v = "sample_validator ?s"
  have s: "?s = JObj [(Name ''type'', JStr ''object''),
                  (Name ''properties'',
                   JObj [(Name ''name'',
                          nullable_choice
                            (JObj [(Name ''type'', JStr ''string''),
                                   (Name ''x-nullable'', JBool True)])),
                         (Name ''size'', JObj [(Name ''type'', JStr ''number'')])])]"
    by (simp add: decorateWithNullable_def item_schema_def)
  have o1: "validateRequestOpt sample_options" and o2: "validateResponseOpt sample_options"
    and o3: "\<not> requestValidationFn sample_options"
    by (simp_all add: sample_simps)
  have i: "init sample_ext sample_given = Inr (sample_options, sample_pathObjects)"
    by (simp add: init_def map_entries_def sample_given_def default_true_def
        sample_options_def sample_pathObjects_def sample_paths_def)
  have i': "validateRequest_given sample_given = JUndefined"
    "validateResponse_given sample_given = JUndefined"
    by (simp_all add: sample_given_def)
  have g: "snd (resolveRequestModelSchema sample_ext sample_options sample_pathObjects
                 get_request) = Inr JNull"
    by (simp add: resolve_simps sample_simps request_simps)
  have p: "snd (resolveRequestModelSchema sample_ext sample_options sample_pathObjects
                 put_request) = Inr ?s"
    unfolding s by (simp add: resolve_simps sample_simps request_simps)
  have t: "truthy ?s" unfolding s by simp
  have c: "ajv_compile sample_ext ?s = Some ?v"
    unfolding s by (simp add: sample_simps)
  have d: "\<not> fst (?v (body put_request))"
    unfolding s by (simp add: sample_simps request_simps nullable_choice_def)
  have a: "\<not> accepted sample_ext ?s (body put_request)"
    using d by (simp add: accepted_def c)
  have h: "sample_response\<lparr>write_op := Interceptor, end_op := Interceptor\<rparr> = hooked_response"
    "sample_response\<lparr>statusCode := Some 400, write_op := Interceptor, end_op := Interceptor\<rparr>
       = hooked_response\<lparr>statusCode := Some 400\<rparr>"
    "end_op sample_response = Original" "write_op sample_response = Original"
    by (simp_all add: hook_simps sample_simps)
  have m: "failure_message put_request =
             JObj [(Name ''message'',
                    JStr ''Response schema validation failed for PUT/items/7?verbose=1'')]"
    by (simp add: failure_message_def request_simps)
  note t1 = validate_runs_both_stages
              [OF o1 o2 g, where res = sample_response and given = sample_given
                 and opts' = sample_options and pathObjects' = sample_pathObjects]
  note t2 = validate_runs_both_stages
              [OF o1 o2 p, where res = sample_response and given = sample_given
                 and opts' = sample_options and pathObjects' = sample_pathObjects]
  from t1 have x1:
    "validate sample_ext sample_options sample_pathObjects get_request sample_response =
       (fst (resolveRequestModelSchema sample_ext sample_options sample_pathObjects get_request),
        hooked_response,
        Some \<lparr>origEnd = Original, origWrite = Original, writtenData = []\<rparr>,
        [Next None, Next None],
        None)"
    by (simp add: h)
  from t2 t c d o3 have x2:
    "validate sample_ext sample_options sample_pathObjects put_request sample_response =
       (fst (resolveRequestModelSchema sample_ext sample_options sample_pathObjects put_request),
        hooked_response\<lparr>statusCode := Some 400\<rparr>,
        Some \<lparr>origEnd = Original, origWrite = Original, writtenData = []\<rparr>,
        [Status 400,
         Json (JObj [(Name ''message'',
                      JStr ''Response schema validation failed for PUT/items/7?verbose=1'')]),
         Next None],
        None)"
    by (simp add: h m)
  from o1 o2 o3 i i' g x1 p t a x2 show ?thesis by blast
qed

subsection \<open>Order of the steps of the finalize interceptor\<close>








subsection \<open>Nullable decoration\<close>

text \<open>Reading a property after an assignment.\<close>

lemma get_set_other:
  assumes "k \<noteq> k'"
  shows "get_prop (set_prop obj k v) k' = get_prop obj k'"
proof (cases obj)
  case (JArr xs)
  with assms show ?thesis by (cases k; cases k') (auto simp: nth_list_update)
next
  case (JObj ps)
  with assms show ?thesis by (simp add: update_conv')
qed simp_all

lemma own_keys_set: "k \<in> set (own_keys obj) \<Longrightarrow> own_keys (set_prop obj k v) = own_keys obj"
proof (cases obj)
  case (JArr xs)
  then show ?thesis by (cases k) auto
next
  case (JObj ps)
  assume "k \<in> set (own_keys obj)"
  with JObj show ?thesis by (simp add: update_keys)
qed simp_all

lemma truthy_set: "truthy (set_prop obj k v) = truthy obj"
  by (cases obj; cases k) simp_all

lemma get_own_key: "k \<in> set (own_keys obj) \<Longrightarrow> \<exists>p. get_prop obj k = Inr p"
  by (cases obj; cases k) auto

text \<open>A property whose flag is truthy lives in an object or an array, where the
  assignment takes effect.\<close>

lemma get_set_flagged:
  assumes "k \<in> set (own_keys obj)" and "get_prop obj k = Inr p"
    and "get_prop p (Name ''x-nullable'') = Inr flag" and "truthy flag"
  shows "get_prop (set_prop obj k v) k = Inr v"
proof (cases obj)
  case (JStr s)
  with assms show ?thesis by (cases k) (auto split: if_splits)
next
  case (JArr xs)
  with assms show ?thesis by (cases k) auto
next
  case (JObj ps)
  then show ?thesis by (simp add: update_conv')
qed (use assms in simp_all)

subsection \<open>The loop over the property keys\<close>

lemma nullable_choice_flag:
  "get_prop (nullable_choice p) (Name ''x-nullable'') = Inr JUndefined"
  by (simp add: nullable_choice_def)

lemma decorate_keys_own_keys:
  "set ks \<subseteq> set (own_keys props) \<Longrightarrow> decorate_keys ks props = (props', r) \<Longrightarrow>
   own_keys props' = own_keys props"
proof (induction ks arbitrary: props)
  case Nil
  then show ?case by simp
next
  case (Cons k ks)
  then show ?case
    by (auto split: sum.splits if_splits simp: own_keys_set)
       (metis own_keys_set)+
qed

lemma decorate_keys_truthy:
  "decorate_keys ks props = (props', r) \<Longrightarrow> truthy props' = truthy props"
proof (induction ks arbitrary: props)
  case Nil
  then show ?case by simp
next
  case (Cons k ks)
  then show ?case
    by (auto split: sum.splits if_splits simp: truthy_set)
qed

text \<open>A property whose flag is not truthy is left as it is by the rest of the loop.\<close>

lemma decorate_keys_settled:
  assumes "get_prop props x = Inr p" and "get_prop p (Name ''x-nullable'') = Inr flag"
    and "\<not> truthy flag" and "decorate_keys ks props = (props', r)"
  shows "get_prop props' x = Inr p"
  using assms
proof (induction ks arbitrary: props)
  case Nil
  then show ?case by simp
next
  case (Cons k ks)
  show ?case
  proof (cases "get_prop props k")
    case (Inl e)
    with Cons.prems show ?thesis by simp
  next
    case (Inr q)
    note q = this
    show ?thesis
    proof (cases "get_prop q (Name ''x-nullable'')")
      case (Inl e)
      with q Cons.prems show ?thesis by simp
    next
      case (Inr f)
      show ?thesis
      proof (cases "truthy f")
        case True
        with q Inr Cons.prems have "k \<noteq> x" by auto
        then have "get_prop (set_prop props k (nullable_choice q)) x = Inr p"
          using Cons.prems(1) by (simp add: get_set_other)
        moreover have "decorate_keys ks (set_prop props k (nullable_choice q)) = (props', r)"
          using Cons.prems(4) q Inr True by simp
        ultimately show ?thesis
          using Cons.IH Cons.prems(2,3) by blast
      next
        case False
        with q Inr Cons.prems(4) have "decorate_keys ks props = (props', r)" by simp
        then show ?thesis
          using Cons.IH Cons.prems(1,2,3) by blast
      qed
    qed
  qed
qed

text \<open>After the step for a key, its property has no truthy flag.\<close>

lemma decorate_keys_again:
  "set ks \<subseteq> set (own_keys props) \<Longrightarrow> decorate_keys ks props = (props', r) \<Longrightarrow>
   decorate_keys ks props' = (props', r)"
proof (induction ks arbitrary: props)
  case Nil
  then show ?case by simp
next
  case (Cons k ks)
  from Cons.prems(1) have kin: "k \<in> set (own_keys props)" and sub: "set ks \<subseteq> set (own_keys props)"
    by auto
  show ?case
  proof (cases "get_prop props k")
    case (Inl e)
    with Cons.prems show ?thesis by simp
  next
    case (Inr q)
    note q = this
    show ?thesis
    proof (cases "get_prop q (Name ''x-nullable'')")
      case (Inl e)
      with q Cons.prems show ?thesis by simp
    next
      case (Inr f)
      define props1 where
        "props1 = (if truthy f then set_prop props k (nullable_choice q) else props)"
      have run: "decorate_keys ks props1 = (props', r)"
        using Cons.prems(2) q Inr by (simp add: props1_def)
      have keys1: "own_keys props1 = own_keys props"
        using kin by (simp add: props1_def own_keys_set)
      have again: "decorate_keys ks props' = (props', r)"
        using Cons.IH [of props1] sub run keys1 by simp
      have "\<exists>q' f'. get_prop props1 k = Inr q' \<and> get_prop q' (Name ''x-nullable'') = Inr f'
                     \<and> \<not> truthy f'"
      proof (cases "truthy f")
        case True
        then have "get_prop props1 k = Inr (nullable_choice q)"
          using get_set_flagged [OF kin q Inr True] by (simp add: props1_def)
        then show ?thesis using nullable_choice_flag by fastforce
      next
        case False
        then show ?thesis using q Inr by (auto simp: props1_def)
      qed
      then obtain q' f' where s: "get_prop props1 k = Inr q'"
        "get_prop q' (Name ''x-nullable'') = Inr f'" "\<not> truthy f'"
        by blast
      have "get_prop props' k = Inr q'"
        using decorate_keys_settled [OF s run] .
      with s again show ?thesis by simp
    qed
  qed
qed

text \<open>The property of a key of the loop whose flag is truthy ends as the choice.\<close>

lemma decorate_keys_result:
  assumes "set ks \<subseteq> set (own_keys props)" and "decorate_keys ks props = (props', r)"
    and "r = None"
    and "x \<in> set ks" and "get_prop props x = Inr p"
    and "get_prop p (Name ''x-nullable'') = Inr flag" and "truthy flag"
  shows "get_prop props' x = Inr (nullable_choice p)"
  using assms
proof (induction ks arbitrary: props)
  case Nil
  then show ?case by simp
next
  case (Cons k ks)
  from Cons.prems(1) have kin: "k \<in> set (own_keys props)" and sub: "set ks \<subseteq> set (own_keys props)"
    by auto
  obtain q where q: "get_prop props k = Inr q"
    using get_own_key [OF kin] by blast
  obtain f where f: "get_prop q (Name ''x-nullable'') = Inr f"
    using Cons.prems(2,3) q by (cases "get_prop q (Name ''x-nullable'')") auto
  define props1 where
    "props1 = (if truthy f then set_prop props k (nullable_choice q) else props)"
  have run: "decorate_keys ks props1 = (props', r)"
    using Cons.prems(2) q f by (simp add: props1_def)
  have keys1: "own_keys props1 = own_keys props"
    using kin by (simp add: props1_def own_keys_set)
  show ?case
  proof (cases "k = x")
    case True
    with q f Cons.prems have "q = p" "f = flag" by auto
    then have "get_prop props1 x = Inr (nullable_choice p)"
      using get_set_flagged [OF kin q f] Cons.prems(7) True by (simp add: props1_def)
    then show ?thesis
      using decorate_keys_settled [OF _ nullable_choice_flag _ run] by simp
  next
    case False
    then have "get_prop props1 x = Inr p"
      using Cons.prems(5) by (simp add: props1_def get_set_other)
    moreover from False Cons.prems(4) have "x \<in> set ks" by simp
    ultimately show ?thesis
      using Cons.IH [of props1] sub keys1 run Cons.prems(3,6,7) by simp
  qed
qed

subsection \<open>The decoration\<close>

lemma properties_of_object:
  "get_prop s (Name ''properties'') = Inr props \<Longrightarrow> truthy props \<Longrightarrow> \<exists>ps. s = JObj ps"
  by (cases s) (auto split: if_splits)

lemma decorateWithNullable_again:
  "decorateWithNullable (fst (decorateWithNullable s)) = decorateWithNullable s"
proof (cases "truthy s")
  case False
  then show ?thesis by (simp add: decorateWithNullable_def)
next
  case True
  then obtain props where g: "get_prop s (Name ''properties'') = Inr props"
    by (cases s) auto
  show ?thesis
  proof (cases "truthy props")
    case False
    with True g show ?thesis by (simp add: decorateWithNullable_def)
  next
    case t: True
    obtain ps where s: "s = JObj ps"
      using properties_of_object [OF g t] by blast
    obtain props' r where d: "decorate_keys (own_keys props) props = (props', r)"
      by (cases "decorate_keys (own_keys props) props") auto
    have first: "decorateWithNullable s = (set_prop s (Name ''properties'') props', r)"
      using True g t d by (simp add: decorateWithNullable_def)
    have k: "own_keys props' = own_keys props"
      using decorate_keys_own_keys [OF _ d] by simp
    have t': "truthy props'"
      using decorate_keys_truthy [OF d] t by simp
    have a: "decorate_keys (own_keys props') props' = (props', r)"
      using decorate_keys_again [OF _ d] k by simp
    have "decorateWithNullable (set_prop s (Name ''properties'') props')
            = (set_prop s (Name ''properties'') props', r)"
      using t' a by (simp add: decorateWithNullable_def s update_conv')
    with first show ?thesis by simp
  qed
qed

lemma accepted_sample: "accepted sample_ext s v = schema_accepts s v"
  by (cases s) (simp_all add: accepted_def sample_ext_def sample_compile_def sample_validator_def)

text \<open>
  C7, as stated, fails under the meaning JSON Schema gives to \<open>oneOf\<close> (valid against
  exactly one of the listed schemas). The property \<open>x\<close> of the example is marked
  nullable and has no other constraint, so it admits \<open>null\<close> already. After the
  decoration its schema is the \<open>oneOf\<close> of the original and \<open>{type: 'null'}\<close>;
  \<open>null\<close> then satisfies both alternatives and is rejected, for the property and for
  an object that carries it.
\<close>

theorem decorateWithNullable_rejects_null:
  "get_prop (JObj [(Name ''x-nullable'', JBool True)]) (Name ''x-nullable'') = Inr (JBool True)
   \<and> lookup_path free_schema [Name ''properties'', Name ''x'']
       = Inr (JObj [(Name ''x-nullable'', JBool True)])
   \<and> lookup_path (fst (decorateWithNullable free_schema)) [Name ''properties'', Name ''x'']
       = Inr (nullable_choice (JObj [(Name ''x-nullable'', JBool True)]))
   \<and> accepted sample_ext free_schema (JObj [(Name ''x'', JNull)])
   \<and> \<not> accepted sample_ext (fst (decorateWithNullable free_schema)) (JObj [(Name ''x'', JNull)])
   \<and> \<not> accepted sample_ext (nullable_choice (JObj [(Name ''x-nullable'', JBool True)])) JNull"
  by (simp add: accepted_sample free_schema_def decorateWithNullable_def nullable_choice_def
      type_holds_def type_matches_def)

text \<open>
  C7, amended. Decorating a schema that has been decorated changes nothing more and
  ends the same way, so the schema accepts the same values after the second call as
  after the first. When the call returns, the schema of a top-level property whose
  \<open>x-nullable\<close> is truthy has become the \<open>oneOf\<close> of its original schema and
  \<open>{type: 'null'}\<close>. When the engine compiles the original schema of the property
  and gives this \<open>oneOf\<close> and \<open>{type: 'null'}\<close> their standard meaning (the choice
  is valid for a value exactly when one of its two alternatives is, and
  \<open>{type: 'null'}\<close> is valid for \<open>null\<close> only), the choice accepts every value
  other than \<open>null\<close> that the original schema accepts, and accepts \<open>null\<close> when
  the original schema does not.
\<close>

theorem decorateWithNullable_idempotent:
  "decorateWithNullable (fst (decorateWithNullable schema)) = decorateWithNullable schema
   \<and> (\<forall>v. accepted ext (fst (decorateWithNullable (fst (decorateWithNullable schema)))) v
          = accepted ext (fst (decorateWithNullable schema)) v)
   \<and> (get_prop schema (Name ''properties'') = Inr props \<and> x \<in> set (own_keys props) \<and>
       get_prop props x = Inr p \<and> get_prop p (Name ''x-nullable'') = Inr flag \<and> truthy flag \<and>
       snd (decorateWithNullable schema) = None \<longrightarrow>
       lookup_path (fst (decorateWithNullable schema)) [Name ''properties'', x]
         = Inr (nullable_choice p))
   \<and> (ajv_compile ext p \<noteq> None \<and>
       (\<forall>w. accepted ext (nullable_choice p) w
              = (length (filter (\<lambda>s. accepted ext s w)
                           [p, JObj [(Name ''type'', JStr ''null'')]]) = 1)) \<and>
       (\<forall>w. accepted ext (JObj [(Name ''type'', JStr ''null'')]) w = (w = JNull)) \<longrightarrow>
       (v \<noteq> JNull \<longrightarrow> accepted ext (nullable_choice p) v = accepted ext p v) \<and>
       (\<not> accepted ext p JNull \<longrightarrow> accepted ext (nullable_choice p) JNull))"
proof (intro conjI impI allI)
  show again: "decorateWithNullable (fst (decorateWithNullable schema)) = decorateWithNullable schema"
    by (rule decorateWithNullable_again)
  fix w
  show "accepted ext (fst (decorateWithNullable (fst (decorateWithNullable schema)))) w
          = accepted ext (fst (decorateWithNullable schema)) w"
    by (simp add: again)
next
  assume a: "get_prop schema (Name ''properties'') = Inr props \<and> x \<in> set (own_keys props) \<and>
       get_prop props x = Inr p \<and> get_prop p (Name ''x-nullable'') = Inr flag \<and> truthy flag \<and>
       snd (decorateWithNullable schema) = None"
  then have x: "x \<in> set (own_keys props)" by simp
  then have t: "truthy props" by (cases props) auto
  from a obtain ps where s: "schema = JObj ps"
    using properties_of_object [OF _ t] by blast
  obtain props' r where d: "decorate_keys (own_keys props) props = (props', r)"
    by (cases "decorate_keys (own_keys props) props") auto
  have first: "decorateWithNullable schema = (set_prop schema (Name ''properties'') props', r)"
    using a t d by (simp add: decorateWithNullable_def s)
  with a have r: "r = None" by simp
  have "get_prop props' x = Inr (nullable_choice p)"
    using decorate_keys_result [OF _ d r x] a by simp
  then show "lookup_path (fst (decorateWithNullable schema)) [Name ''properties'', x]
         = Inr (nullable_choice p)"
    using first by (simp add: s update_conv')
next
  assume laws: "ajv_compile ext p \<noteq> None \<and>
       (\<forall>w. accepted ext (nullable_choice p) w
              = (length (filter (\<lambda>s. accepted ext s w)
                           [p, JObj [(Name ''type'', JStr ''null'')]]) = 1)) \<and>
       (\<forall>w. accepted ext (JObj [(Name ''type'', JStr ''null'')]) w = (w = JNull))"
  assume "v \<noteq> JNull"
  with laws show "accepted ext (nullable_choice p) v = accepted ext p v"
    by simp
next
  assume laws: "ajv_compile ext p \<noteq> None \<and>
       (\<forall>w. accepted ext (nullable_choice p) w
              = (length (filter (\<lambda>s. accepted ext s w)
                           [p, JObj [(Name ''type'', JStr ''null'')]]) = 1)) \<and>
       (\<forall>w. accepted ext (JObj [(Name ''type'', JStr ''null'')]) w = (w = JNull))"
  assume "\<not> accepted ext p JNull"
  with laws show "accepted ext (nullable_choice p) JNull"
    by simp
qed

theorem decorateWithNullable_idempotent_witness:
  "get_prop item_schema (Name ''properties'')
     = Inr (JObj [(Name ''name'',
                   JObj [(Name ''type'', JStr ''string''), (Name ''x-nullable'', JBool True)]),
                  (Name ''size'', JObj [(Name ''type'', JStr ''number'')])])
   \<and> get_prop (JObj [(Name ''type'', JStr ''string''), (Name ''x-nullable'', JBool True)])
        (Name ''x-nullable'') = Inr (JBool True)
   \<and> truthy (JBool True)
   \<and> snd (decorateWithNullable item_schema) = None
   \<and> lookup_path (fst (decorateWithNullable item_schema)) [Name ''properties'', Name ''name'']
       = Inr (nullable_choice
                (JObj [(Name ''type'', JStr ''string''), (Name ''x-nullable'', JBool True)]))
   \<and> ajv_compile sample_ext
        (JObj [(Name ''type'', JStr ''string''), (Name ''x-nullable'', JBool True)]) \<noteq> None
   \<and> (\<forall>w. accepted sample_ext
              (nullable_choice
                 (JObj [(Name ''type'', JStr ''string''), (Name ''x-nullable'', JBool True)])) w
            = (length (filter (\<lambda>s. accepted sample_ext s w)
                 [JObj [(Name ''type'', JStr ''string''), (Name ''x-nullable'', JBool True)],
                  JObj [(Name ''type'', JStr ''null'')]]) = 1))
   \<and> (\<forall>w. accepted sample_ext (JObj [(Name ''type'', JStr ''null'')]) w = (w = JNull))
   \<and> accepted sample_ext
        (JObj [(Name ''type'', JStr ''string''), (Name ''x-nullable'', JBool True)]) (JStr ''abc'')
   \<and> \<not> accepted sample_ext
        (JObj [(Name ''type'', JStr ''string''), (Name ''x-nullable'', JBool True)]) JNull
   \<and> accepted sample_ext
        (nullable_choice
           (JObj [(Name ''type'', JStr ''string''), (Name ''x-nullable'', JBool True)]))
        (JStr ''abc'')
   \<and> accepted sample_ext
        (nullable_choice
           (JObj [(Name ''type'', JStr ''string''), (Name ''x-nullable'', JBool True)]))
        JNull
   \<and> decorateWithNullable (fst (decorateWithNullable item_schema))
       = decorateWithNullable item_schema"
proof -
  let ?p = "JObj [(Name ''type'', JStr ''string''), (Name ''x-nullable'', JBool True)]"
  let ?props = "JObj [(Name ''name'', ?p), (Name ''size'', JObj [(Name ''type'', JStr ''number'')])]"
  have a: "get_prop item_schema (Name ''properties'') = Inr ?props"
    by (simp add: item_schema_def)
  have b: "Name ''name'' \<in> set (own_keys ?props)" by simp
  have c: "get_prop ?props (Name ''name'') = Inr ?p" by simp
  have d: "get_prop ?p (Name ''x-nullable'') = Inr (JBool True)" by simp
  have e: "truthy (JBool True)" by simp
  have f: "snd (decorateWithNullable item_schema) = None"
    by (simp add: decorateWithNullable_def item_schema_def)
  have l0: "ajv_compile sample_ext ?p \<noteq> None"
    by (simp add: sample_simps)
  have l1: "\<forall>w. accepted sample_ext (nullable_choice ?p) w
            = (length (filter (\<lambda>s. accepted sample_ext s w)
                 [?p, JObj [(Name ''type'', JStr ''null'')]]) = 1)"
    by (simp add: accepted_sample nullable_choice_def)
  have l2: "\<forall>w. accepted sample_ext (JObj [(Name ''type'', JStr ''null'')]) w = (w = JNull)"
  proof
    fix w show "accepted sample_ext (JObj [(Name ''type'', JStr ''null'')]) w = (w = JNull)"
      by (cases w) (simp_all add: accepted_sample type_holds_def type_matches_def)
  qed
  have g: "accepted sample_ext ?p (JStr ''abc'')"
    by (simp add: accepted_sample type_holds_def type_matches_def)
  have h: "\<not> accepted sample_ext ?p JNull"
    by (simp add: accepted_sample type_holds_def type_matches_def)
  have n: "JStr ''abc'' \<noteq> JNull" by simp
  note t = decorateWithNullable_idempotent
             [where schema = item_schema and props = ?props and x = "Name ''name''" and p = ?p
                and flag = "JBool True" and ext = sample_ext and v = "JStr ''abc''"]
  from t a b c d e f have x1:
    "lookup_path (fst (decorateWithNullable item_schema)) [Name ''properties'', Name ''name'']
       = Inr (nullable_choice ?p)"
    by blast
  from t l0 l1 l2 n g have x2: "accepted sample_ext (nullable_choice ?p) (JStr ''abc'')"
    by blast
  from t l0 l1 l2 h have x3: "accepted sample_ext (nullable_choice ?p) JNull"
    by blast
  from t have x4: "decorateWithNullable (fst (decorateWithNullable item_schema))
       = decorateWithNullable item_schema"
    by blast
  from a d e f x1 l0 l1 l2 g h x2 x3 x4 show ?thesis by blast
qed

subsection \<open>Assignment along a key path\<close>

lemma reaches_Cons:
  assumes "reaches obj (k # ks)"
  obtains child where "get_prop obj k = Inr child" and "reaches child ks"
    and "\<And>w. get_prop (set_prop obj k w) k = Inr w"
    and "\<And>w. reaches w ks \<Longrightarrow> reaches (set_prop obj k w) (k # ks)"
    and "set_prop obj k child = obj"
    and "\<And>a b. set_prop (set_prop obj k a) k b = set_prop obj k b"
proof (cases obj)
  case (JArr xs)
  with assms obtain i where "k = Idx i" "i < length xs" "reaches (xs ! i) ks"
    by (cases k) auto
  with JArr that [of "xs ! i"] show ?thesis by simp
next
  case (JObj ps)
  with assms obtain child where c: "map_of ps k = Some child" "reaches child ks"
    by (auto split: option.splits)
  with JObj that [of child] show ?thesis
    by (simp add: update_conv' update_triv)
qed (use assms in simp_all)

lemma lookup_assign_same:
  "reaches obj l \<Longrightarrow> lookup_path (assign_path obj l v) (l @ r) = lookup_path v r"
proof (induction l arbitrary: obj)
  case Nil
  then show ?case by simp
next
  case (Cons k l)
  from Cons.prems show ?case
    by (rule reaches_Cons) (simp add: Cons.IH)
qed

subsection \<open>The first object that matches\<close>

lemma filter_update_first:
  "(\<And>x. P (f x) = P x) \<Longrightarrow>
   filter P (update_first P f xs) = (case filter P xs of [] \<Rightarrow> [] | x # r \<Rightarrow> f x # r)"
  by (induction xs) simp_all

subsection \<open>Shapes along the path to a schema\<close>

lemma get_container_reaches:
  "get_prop obj k = Inr c \<Longrightarrow> c = JObj ps \<or> c = JArr xs \<Longrightarrow> reaches obj [k]"
  by (cases obj; cases k) (auto split: option.splits if_splits)

lemma get_named_reaches:
  "get_prop obj (Name n) = Inr c \<Longrightarrow> truthy c \<Longrightarrow> n \<noteq> ''length'' \<Longrightarrow>
   \<exists>ps. obj = JObj ps \<and> map_of ps (Name n) = Some c"
  by (cases obj) (auto split: option.splits if_splits)

lemma reaches_one: "reaches obj [k] \<Longrightarrow> (\<exists>ps. obj = JObj ps) \<or> (\<exists>xs. obj = JArr xs)"
  by (cases obj) auto

lemma reaches_step:
  "reaches obj [k] \<Longrightarrow> get_prop obj k = Inr c \<Longrightarrow> reaches c ks \<Longrightarrow> reaches obj (k # ks)"
  by (cases obj; cases k) (auto split: option.splits)

lemma request_schema_found:
  assumes "request_schema ext pathObj m = Inr (schema, Some l)"
  shows "l = [Name m, Name ''parameters'', Idx 0, Name ''schema'']"
    and "lookup_path pathObj l = Inr schema"
  using assms
  by (auto simp: request_schema_def split: if_splits sum.splits)

lemma lookup_truthy_reaches:
  assumes "lookup_path obj [k1, k2, k3, Name n] = Inr schema"
    and "truthy schema" and "n \<noteq> ''length''"
  shows "reaches obj [k1, k2, k3, Name n]"
proof -
  from assms(1) obtain c1 c2 c3 where g:
    "get_prop obj k1 = Inr c1" "get_prop c1 k2 = Inr c2" "get_prop c2 k3 = Inr c3"
    "get_prop c3 (Name n) = Inr schema"
    by (auto split: sum.splits)
  from get_named_reaches [OF g(4) assms(2,3)] obtain ps where
    c3: "c3 = JObj ps" "map_of ps (Name n) = Some schema" by blast
  then have r3: "reaches c3 [Name n]" by simp
  have r2: "reaches c2 [k3]" using get_container_reaches [OF g(3)] c3 by blast
  from reaches_one [OF r2] have r1: "reaches c1 [k2]"
    using get_container_reaches [OF g(2)] by blast
  from reaches_one [OF r1] have r0: "reaches obj [k1]"
    using get_container_reaches [OF g(1)] by blast
  from reaches_step [OF r2 g(3) r3] have "reaches c2 [k3, Name n]" .
  from reaches_step [OF r1 g(2) this] have "reaches c1 [k2, k3, Name n]" .
  from reaches_step [OF r0 g(1) this] show ?thesis .
qed


subsection \<open>One resolution step on the module state\<close>

lemma finish_resolve_plain:
  "\<not> allowNullable opts \<or> \<not> truthy schema \<Longrightarrow>
   finish_resolve ext opts pos u (schema, loc) = (pos, Inr schema)"
  by (auto simp: finish_resolve_def decorateWithNullable_def split: prod.splits option.splits)

lemma finish_resolve_store:
  "allowNullable opts \<Longrightarrow> truthy schema \<Longrightarrow> decorateWithNullable schema = (s', r) \<Longrightarrow>
   finish_resolve ext opts pos u (schema, Some l) =
     (store_schema ext pos u l s', case r of None \<Rightarrow> Inr s' | Some e \<Rightarrow> Inl e)"
  by (simp add: finish_resolve_def)

text \<open>The object returned is the one the contract holds at the location afterwards.\<close>

lemma resolve_returned:
  assumes res: "res = (case matchUrlWithSchema ext pos u of
                   Inl e \<Rightarrow> (pos, Inl e)
                 | Inr pathObj \<Rightarrow>
                     (case F pathObj of
                        Inl e \<Rightarrow> (pos, Inl e)
                      | Inr found \<Rightarrow> finish_resolve ext opts pos u found))"
    and found: "\<And>pathObj schema l. F pathObj = Inr (schema, Some l) \<Longrightarrow>
                  l = L \<and> lookup_path pathObj L = Inr schema"
    and reach: "\<And>pathObj schema. lookup_path pathObj L = Inr schema \<Longrightarrow> truthy schema \<Longrightarrow>
                  reaches pathObj L"
    and m: "matchUrlWithSchema ext pos u = Inr pathObj"
    and F: "F pathObj = Inr (schema, Some l)"
    and ret: "snd res = Inr s'"
  shows "\<exists>pathObj'. matchUrlWithSchema ext (fst res) u = Inr pathObj'
           \<and> lookup_path pathObj' L = Inr s'"
proof (cases "allowNullable opts \<and> truthy schema")
  case False
  then have "res = (pos, Inr schema)"
    using res m F finish_resolve_plain [of opts schema ext pos u "Some l"] by auto
  with ret m found [OF F] show ?thesis by simp
next
  case True
  obtain s0 r where d: "decorateWithNullable schema = (s0, r)"
    by (cases "decorateWithNullable schema")
  have res': "res = (store_schema ext pos u l s0, case r of None \<Rightarrow> Inr s0 | Some e \<Rightarrow> Inl e)"
    using res m F True finish_resolve_store [OF _ _ d] by simp
  with ret have s0: "s0 = s'" by (auto split: option.splits)
  from found [OF F] have l: "l = L" and lk: "lookup_path pathObj L = Inr schema"
    by simp_all
  have rc: "reaches pathObj L"
    using reach [OF lk] True by simp
  have nn: "pathObj \<noteq> JNull"
    using lk True by (cases L) auto
  obtain url where url: "parseUrl_pathname ext u = Some url"
    using m nn by (cases "parseUrl_pathname ext u")
      (auto simp: matchUrlWithSchema_def split: if_splits)
  obtain obj rest where fl: "filter (\<lambda>obj. regexp obj url) pos = obj # rest"
    and po: "pathObj = definition' obj"
    using m url nn
    by (cases "filter (\<lambda>obj. regexp obj url) pos") (auto simp: matchUrlWithSchema_def)
  let ?f = "\<lambda>obj. obj\<lparr>definition' := assign_path (definition' obj) L s'\<rparr>"
  have "fst res = update_first (\<lambda>obj. regexp obj url) ?f pos"
    using res' url by (simp add: store_schema_def l s0)
  then have "filter (\<lambda>obj. regexp obj url) (fst res) = ?f obj # rest"
    using fl by (simp add: filter_update_first)
  then have "matchUrlWithSchema ext (fst res) u = Inr (assign_path pathObj L s')"
    using url po by (simp add: matchUrlWithSchema_def)
  moreover have "lookup_path (assign_path pathObj L s') L = Inr s'"
    using lookup_assign_same [OF rc, of s' "[]"] by simp
  ultimately show ?thesis by simp
qed

subsection \<open>The request resolver as a resolution step\<close>

lemma request_found:
  "request_schema ext pathObj (toLowerCase (method' req)) = Inr (schema, Some l) \<Longrightarrow>
   l = request_location req \<and> lookup_path pathObj (request_location req) = Inr schema"
  using request_schema_found [of ext pathObj "toLowerCase (method' req)" schema l]
  by (simp add: request_location_def)

lemma request_reach:
  "lookup_path pathObj (request_location req) = Inr schema \<Longrightarrow> truthy schema \<Longrightarrow>
   reaches pathObj (request_location req)"
  unfolding request_location_def by (rule lookup_truthy_reaches) simp_all

lemma request_returned:
  assumes "matchUrlWithSchema ext pos (originalUrl req) = Inr pathObj"
    and "request_schema ext pathObj (toLowerCase (method' req)) = Inr (schema, Some l)"
    and "snd (resolveRequestModelSchema ext opts pos req) = Inr s'"
  shows "\<exists>pathObj'. matchUrlWithSchema ext (fst (resolveRequestModelSchema ext opts pos req))
                       (originalUrl req) = Inr pathObj'
           \<and> lookup_path pathObj' (request_location req) = Inr s'"
  by (rule resolve_returned
        [where F = "\<lambda>pathObj. request_schema ext pathObj (toLowerCase (method' req))",
         OF _ request_found request_reach assms])
     (simp_all add: resolveRequestModelSchema_def)

subsection \<open>Request schema resolution\<close>

text \<open>
  C4. Let \<open>pathObj\<close> be what path resolution returns for the request. The request
  resolver returns \<open>null\<close>, and leaves the contract as it is, when \<open>pathObj\<close> is
  \<open>null\<close> (no path matches), when \<open>pathObj\<close> has no truthy entry for the lower-cased
  method, and when that entry has no \<open>parameters\<close> or an empty list, whatever the
  other methods of the path declare. When the entry declares the parameters
  \<open>first # others\<close>, the result is the \<open>schema\<close> of \<open>first\<close>: the object itself when
  \<open>allowNullable\<close> is off, and otherwise that object after its decoration in place,
  which is the object the contract then holds at
  \<open>[method].parameters[0].schema\<close> of the matched definition.
\<close>

theorem resolveRequestModelSchema_first_parameter:
  assumes "matchUrlWithSchema ext pathObjects (originalUrl req) = Inr pathObj"
  shows "(\<not> truthy pathObj \<longrightarrow>
            resolveRequestModelSchema ext opts pathObjects req = (pathObjects, Inr JNull))
       \<and> (get_prop pathObj (Name (toLowerCase (method' req))) = Inr entry \<and> \<not> truthy entry \<longrightarrow>
            resolveRequestModelSchema ext opts pathObjects req = (pathObjects, Inr JNull))
       \<and> (get_prop pathObj (Name (toLowerCase (method' req))) = Inr entry \<and> truthy entry \<and>
          get_prop entry (Name ''parameters'') = Inr params \<and>
          (\<not> truthy params \<or> params = JArr []) \<longrightarrow>
            resolveRequestModelSchema ext opts pathObjects req = (pathObjects, Inr JNull))
       \<and> (truthy pathObj \<and>
          get_prop pathObj (Name (toLowerCase (method' req))) = Inr entry \<and> truthy entry \<and>
          get_prop entry (Name ''parameters'') = Inr (JArr (first # others)) \<and>
          get_prop first (Name ''schema'') = Inr schema \<longrightarrow>
            snd (resolveRequestModelSchema ext opts pathObjects req) =
              (if allowNullable opts then
                 (case snd (decorateWithNullable schema) of
                    None \<Rightarrow> Inr (fst (decorateWithNullable schema))
                  | Some e \<Rightarrow> Inl e)
               else Inr schema)
            \<and> (\<forall>s'. snd (resolveRequestModelSchema ext opts pathObjects req) = Inr s' \<longrightarrow>
                  (\<exists>pathObj'.
                     matchUrlWithSchema ext (fst (resolveRequestModelSchema ext opts pathObjects req))
                       (originalUrl req) = Inr pathObj'
                     \<and> lookup_path pathObj' (request_location req) = Inr s')))"
proof (intro conjI impI)
  assume "\<not> truthy pathObj"
  then show "resolveRequestModelSchema ext opts pathObjects req = (pathObjects, Inr JNull)"
    using assms finish_resolve_plain [of opts JNull ext pathObjects "originalUrl req" None]
    by (simp add: resolveRequestModelSchema_def request_schema_def)
next
  assume "get_prop pathObj (Name (toLowerCase (method' req))) = Inr entry \<and> \<not> truthy entry"
  then show "resolveRequestModelSchema ext opts pathObjects req = (pathObjects, Inr JNull)"
    using assms finish_resolve_plain [of opts JNull ext pathObjects "originalUrl req" None]
    by (simp add: resolveRequestModelSchema_def request_schema_def)
next
  assume a: "get_prop pathObj (Name (toLowerCase (method' req))) = Inr entry \<and> truthy entry \<and>
          get_prop entry (Name ''parameters'') = Inr params \<and>
          (\<not> truthy params \<or> params = JArr [])"
  then have "request_schema ext pathObj (toLowerCase (method' req)) = Inr (JNull, None)"
    by (auto simp: request_schema_def)
  then show "resolveRequestModelSchema ext opts pathObjects req = (pathObjects, Inr JNull)"
    using assms finish_resolve_plain [of opts JNull ext pathObjects "originalUrl req" None]
    by (simp add: resolveRequestModelSchema_def)
next
  assume a: "truthy pathObj \<and>
          get_prop pathObj (Name (toLowerCase (method' req))) = Inr entry \<and> truthy entry \<and>
          get_prop entry (Name ''parameters'') = Inr (JArr (first # others)) \<and>
          get_prop first (Name ''schema'') = Inr schema"
  then have F: "request_schema ext pathObj (toLowerCase (method' req))
                  = Inr (schema, Some (request_location req))"
    by (simp add: request_schema_def request_location_def)
  have r: "resolveRequestModelSchema ext opts pathObjects req
             = finish_resolve ext opts pathObjects (originalUrl req)
                 (schema, Some (request_location req))"
    using assms F by (simp add: resolveRequestModelSchema_def)
  show "snd (resolveRequestModelSchema ext opts pathObjects req) =
              (if allowNullable opts then
                 (case snd (decorateWithNullable schema) of
                    None \<Rightarrow> Inr (fst (decorateWithNullable schema))
                  | Some e \<Rightarrow> Inl e)
               else Inr schema)"
    by (cases "decorateWithNullable schema")
       (auto simp: r finish_resolve_def split: option.splits)
  show "\<forall>s'. snd (resolveRequestModelSchema ext opts pathObjects req) = Inr s' \<longrightarrow>
                  (\<exists>pathObj'.
                     matchUrlWithSchema ext (fst (resolveRequestModelSchema ext opts pathObjects req))
                       (originalUrl req) = Inr pathObj'
                     \<and> lookup_path pathObj' (request_location req) = Inr s')"
    using request_returned [OF assms F] by blast
qed

lemmas request_simps' = request_simps orders_request_def

theorem resolveRequestModelSchema_first_parameter_witness:
  "matchUrlWithSchema sample_ext sample_pathObjects (originalUrl orders_request) = Inr JNull
   \<and> resolveRequestModelSchema sample_ext sample_options sample_pathObjects orders_request
       = (sample_pathObjects, Inr JNull)
   \<and> matchUrlWithSchema sample_ext sample_pathObjects (originalUrl post_request)
       = Inr (definition' (sample_pathObjects ! 0))
   \<and> get_prop (definition' (sample_pathObjects ! 0)) (Name (toLowerCase (method' post_request)))
       = Inr JUndefined
   \<and> resolveRequestModelSchema sample_ext sample_options sample_pathObjects post_request
       = (sample_pathObjects, Inr JNull)
   \<and> get_prop (definition' (sample_pathObjects ! 0)) (Name (toLowerCase (method' get_request)))
       = Inr (JObj [(Name ''responses'',
                     JObj [(Idx 200, JObj [(Name ''schema'', item_schema)])])])
   \<and> get_prop (JObj [(Name ''responses'',
                      JObj [(Idx 200, JObj [(Name ''schema'', item_schema)])])])
        (Name ''parameters'') = Inr JUndefined
   \<and> lookup_path (definition' (sample_pathObjects ! 0)) [Name ''put'', Name ''parameters'']
       = Inr (JArr [JObj [(Name ''in'', JStr ''body''), (Name ''schema'', item_schema)]])
   \<and> resolveRequestModelSchema sample_ext sample_options sample_pathObjects get_request
       = (sample_pathObjects, Inr JNull)
   \<and> get_prop (JObj [(Name ''in'', JStr ''body''), (Name ''schema'', item_schema)])
        (Name ''schema'') = Inr item_schema
   \<and> snd (resolveRequestModelSchema sample_ext sample_options sample_pathObjects put_request)
       = Inr (fst (decorateWithNullable item_schema))
   \<and> (\<exists>pathObj'.
         matchUrlWithSchema sample_ext
           (fst (resolveRequestModelSchema sample_ext sample_options sample_pathObjects put_request))
           (originalUrl put_request) = Inr pathObj'
         \<and> lookup_path pathObj' (request_location put_request)
             = Inr (fst (decorateWithNullable item_schema)))
   \<and> snd (resolveRequestModelSchema sample_ext (sample_options\<lparr>allowNullable := False\<rparr>)
            sample_pathObjects put_request) = Inr item_schema"
proof -
  let ?d = "definition' (sample_pathObjects ! 0)"
  let ?get = "JObj [(Name ''responses'', JObj [(Idx 200, JObj [(Name ''schema'', item_schema)])])]"
  let ?first = "JObj [(Name ''in'', JStr ''body''), (Name ''schema'', item_schema)]"
  let ?put = "JObj [(Name ''parameters'', JArr [?first]),
                    (Name ''responses'', JObj [(Idx 204, JObj [])])]"
  have m0: "matchUrlWithSchema sample_ext sample_pathObjects (originalUrl orders_request)
              = Inr JNull"
    by (simp add: matchUrlWithSchema_def sample_simps request_simps')
  have m1: "matchUrlWithSchema sample_ext sample_pathObjects (originalUrl post_request) = Inr ?d"
    by (simp add: matchUrlWithSchema_def sample_simps request_simps')
  have m2: "matchUrlWithSchema sample_ext sample_pathObjects (originalUrl get_request) = Inr ?d"
    by (simp add: matchUrlWithSchema_def sample_simps request_simps')
  have m3: "matchUrlWithSchema sample_ext sample_pathObjects (originalUrl put_request) = Inr ?d"
    by (simp add: matchUrlWithSchema_def sample_simps request_simps')
  have t: "truthy ?d" by (simp add: sample_simps)
  have g1: "get_prop ?d (Name (toLowerCase (method' post_request))) = Inr JUndefined"
    by (simp add: sample_simps request_simps')
  have g2: "get_prop ?d (Name (toLowerCase (method' get_request))) = Inr ?get"
    by (simp add: sample_simps request_simps' del: item_schema_def)
  have g2': "get_prop ?get (Name ''parameters'') = Inr JUndefined" by simp
  have g3: "get_prop ?d (Name (toLowerCase (method' put_request))) = Inr ?put"
    by (simp add: sample_simps request_simps' del: item_schema_def)
  have g3': "get_prop ?put (Name ''parameters'') = Inr (JArr (?first # []))" by simp
  have g3'': "get_prop ?first (Name ''schema'') = Inr item_schema" by simp
  have l: "lookup_path ?d [Name ''put'', Name ''parameters''] = Inr (JArr [?first])"
    by (simp add: sample_simps del: item_schema_def)
  have tp: "truthy ?put" by simp
  have tg: "truthy ?get" by simp
  have prem_b: "get_prop ?d (Name (toLowerCase (method' post_request))) = Inr JUndefined
                \<and> \<not> truthy JUndefined"
    using g1 by simp
  have prem_c: "get_prop ?d (Name (toLowerCase (method' get_request))) = Inr ?get \<and> truthy ?get \<and>
          get_prop ?get (Name ''parameters'') = Inr JUndefined \<and>
          (\<not> truthy JUndefined \<or> JUndefined = JArr [])"
    using g2 g2' tg by simp
  have prem_d: "truthy ?d \<and>
          get_prop ?d (Name (toLowerCase (method' put_request))) = Inr ?put \<and> truthy ?put \<and>
          get_prop ?put (Name ''parameters'') = Inr (JArr (?first # [])) \<and>
          get_prop ?first (Name ''schema'') = Inr item_schema"
    using t g3 g3' g3'' tp by blast
  have n: "snd (decorateWithNullable item_schema) = None"
    by (simp add: decorateWithNullable_def item_schema_def)
  have o: "allowNullable sample_options" by (simp add: sample_options_def)
  have o': "\<not> allowNullable (sample_options\<lparr>allowNullable := False\<rparr>)" by simp
  have nt: "\<not> truthy JNull" by simp
  note a = resolveRequestModelSchema_first_parameter
             [OF m0, of sample_options, THEN conjunct1, THEN mp, OF nt]
  note b = resolveRequestModelSchema_first_parameter
             [OF m1, where entry = JUndefined and opts = sample_options,
              THEN conjunct2, THEN conjunct1, THEN mp, OF prem_b]
  note c = resolveRequestModelSchema_first_parameter
             [OF m2, where entry = ?get and params = JUndefined and opts = sample_options,
              THEN conjunct2, THEN conjunct2, THEN conjunct1, THEN mp, OF prem_c]
  note d = resolveRequestModelSchema_first_parameter
             [OF m3, where entry = ?put and first = ?first and others = "[]"
                and schema = item_schema and opts = sample_options,
              THEN conjunct2, THEN conjunct2, THEN conjunct2, THEN mp, OF prem_d]
  note e = resolveRequestModelSchema_first_parameter
             [OF m3, where entry = ?put and first = ?first and others = "[]"
                and schema = item_schema and opts = "sample_options\<lparr>allowNullable := False\<rparr>",
              THEN conjunct2, THEN conjunct2, THEN conjunct2, THEN mp, OF prem_d, THEN conjunct1]
  from d [THEN conjunct1] have x3:
    "snd (resolveRequestModelSchema sample_ext sample_options sample_pathObjects put_request)
       = Inr (fst (decorateWithNullable item_schema))"
    by (simp only: n o if_True option.case)
  from d [THEN conjunct2, THEN spec, THEN mp, OF x3] have x4:
    "\<exists>pathObj'.
         matchUrlWithSchema sample_ext
           (fst (resolveRequestModelSchema sample_ext sample_options sample_pathObjects put_request))
           (originalUrl put_request) = Inr pathObj'
         \<and> lookup_path pathObj' (request_location put_request)
             = Inr (fst (decorateWithNullable item_schema))" .
  from e have x5:
    "snd (resolveRequestModelSchema sample_ext (sample_options\<lparr>allowNullable := False\<rparr>)
            sample_pathObjects put_request) = Inr item_schema"
    by (simp only: o' if_False)
  show ?thesis
    by (intro conjI) (rule m0 a m1 g1 b g2 g2' l c g3'' x3 x4 x5)+
qed

section \<open>Properties of the store model\<close>

subsection \<open>One round of the decoration\<close>

lemma s_get_throws: "s_get h v k = Inl e \<longleftrightarrow> (v = SUndefined \<or> v = SNull) \<and> e = TypeError"
  by (cases v; cases k) auto

lemma length_s_set: "length (s_set h v k c) = length h"
  by (cases v) simp_all

lemma decorate_prop_length: "decorate_prop schema k h = Inr h2 \<Longrightarrow> length h \<le> length h2"
  by (auto simp: decorate_prop_def new_choice_def length_s_set split: sum.splits if_splits)

lemma decorate_keys_store_length:
  "decorate_keys_store ks schema h = (h', r) \<Longrightarrow> length h \<le> length h'"
proof (induction ks arbitrary: h)
  case Nil
  then show ?case by simp
next
  case (Cons k ks)
  show ?case
  proof (cases "decorate_prop schema k h")
    case (Inl e)
    with Cons.prems show ?thesis by simp
  next
    case (Inr h2)
    with Cons.prems have "decorate_keys_store ks schema h2 = (h', r)" by simp
    from Cons.IH [OF this] decorate_prop_length [OF Inr] show ?thesis by simp
  qed
qed

lemma cell_get_set_other: "k' \<noteq> k \<Longrightarrow> cell_get (cell_set c k v) k' = cell_get c k'"
  by (cases c; cases k; cases k') (auto simp: update_conv' nth_list_update)

lemma cell_get_set_cases:
  "cell_get (cell_set c k v) k' = cell_get c k' \<or> (k' = k \<and> cell_get (cell_set c k v) k' = v)"
  by (cases c; cases k; cases k') (auto simp: update_conv' nth_list_update)

lemma cell_get_set_key: "k \<in> set (cell_keys c) \<Longrightarrow> cell_get (cell_set c k v) k = v"
  by (cases c; cases k) (auto simp: update_conv')

lemma cell_keys_set: "k \<in> set (cell_keys c) \<Longrightarrow> cell_keys (cell_set c k v) = cell_keys c"
proof (cases c)
  case (CObj ps)
  assume "k \<in> set (cell_keys c)"
  with CObj show ?thesis by (simp add: update_keys)
next
  case (CArr xs)
  then show ?thesis by (cases k) auto
qed

lemma flagged_in_object:
  assumes "s_get h props k = Inr v" and "s_get h v (Name ''x-nullable'') = Inr flag"
    and "s_truthy flag"
  shows "\<exists>b. props = SRef b \<and> b < length h"
proof (cases props)
  case (SRef b)
  with assms show ?thesis by (cases "b < length h") auto
next
  case (SStr x)
  with assms show ?thesis by (cases k) (auto split: if_splits)
qed (use assms in auto)

text \<open>The general frame of one round.\<close>

lemma decorate_prop_frame:
  assumes "decorate_prop schema k h = Inr h2" and "n0 \<le> length h"
    and "\<forall>b. s_get h schema (Name ''properties'') = Inr (SRef b) \<longrightarrow> b = p \<or> n0 \<le> b"
  shows "(\<forall>a<n0. a \<noteq> p \<longrightarrow> h2 ! a = h ! a)
       \<and> (\<forall>b. s_get h2 schema (Name ''properties'') = Inr (SRef b) \<longrightarrow> b = p \<or> n0 \<le> b)"
proof -
  obtain props where props: "s_get h schema (Name ''properties'') = Inr props"
    using assms(1) by (cases "s_get h schema (Name ''properties'')") (simp_all add: decorate_prop_def)
  obtain v where v: "s_get h props k = Inr v"
    using assms(1) props by (cases "s_get h props k") (simp_all add: decorate_prop_def)
  obtain flag where flag: "s_get h v (Name ''x-nullable'') = Inr flag"
    using assms(1) props v
    by (cases "s_get h v (Name ''x-nullable'')") (simp_all add: decorate_prop_def)
  show ?thesis
  proof (cases "s_truthy flag")
    case False
    with assms props v flag have "h2 = h" by (simp add: decorate_prop_def)
    with assms(3) show ?thesis by simp
  next
    case True
    define h1 where "h1 = h @ [CObj [(Name ''type'', SStr ''null'')],
           CArr [v, SRef (length h)],
           CObj [(Name ''oneOf'', SRef (length h + 1))]]"
    have h2: "h2 = s_set h1 props k (SRef (length h + 2))"
      using assms(1) props v flag True by (simp add: decorate_prop_def new_choice_def h1_def)
    have l1: "length h1 = length h + 3" by (simp add: h1_def)
    have old: "a < length h \<Longrightarrow> h1 ! a = h ! a" for a by (simp add: h1_def nth_append)
    show ?thesis
    proof (cases props)
      case (SRef b)
      with assms(3) props have b: "b = p \<or> n0 \<le> b" by simp
      have h2': "h2 = (if b < length h1 then h1[b := cell_set (h1 ! b) k (SRef (length h + 2))] else h1)"
        using h2 SRef by simp
      have frame: "\<forall>a<n0. a \<noteq> p \<longrightarrow> h2 ! a = h ! a"
        using b assms(2) old by (auto simp: h2' nth_list_update)
      have inv: "\<forall>c. s_get h2 schema (Name ''properties'') = Inr (SRef c) \<longrightarrow> c = p \<or> n0 \<le> c"
      proof (intro allI impI)
        fix c assume c: "s_get h2 schema (Name ''properties'') = Inr (SRef c)"
        show "c = p \<or> n0 \<le> c"
        proof (cases schema)
          case (SRef s)
          have sl: "s < length h"
          proof (rule ccontr)
            assume "\<not> s < length h"
            with props SRef \<open>props = SRef b\<close> show False by simp
          qed
          have pv: "cell_get (h ! s) (Name ''properties'') = SRef b"
            using props SRef sl \<open>props = SRef b\<close> by simp
          have sl2: "s < length h2" using sl l1 by (simp add: h2' )
          have cv: "cell_get (h2 ! s) (Name ''properties'') = SRef c"
            using c SRef sl2 by simp
          show ?thesis
          proof (cases "s = b \<and> b < length h1")
            case True
            then have "h2 ! s = cell_set (h ! s) k (SRef (length h + 2))"
              using sl old by (simp add: h2')
            with cv cell_get_set_cases [of "h ! s" k "SRef (length h + 2)" "Name ''properties''"] pv
            have "c = b \<or> c = length h + 2" by auto
            with b assms(2) show ?thesis by auto
          next
            case False
            then have "h2 ! s = h ! s"
              using sl old l1 by (auto simp: h2' nth_list_update)
            with cv pv have "c = b" by simp
            with b show ?thesis by simp
          qed
        next
          case SUndefined with c show ?thesis by simp
        next
          case SNull with c show ?thesis by simp
        next
          case (SBool x) with c show ?thesis by simp
        next
          case (SNum x) with c show ?thesis by simp
        next
          case (SStr x) with c show ?thesis by (simp split: if_splits)
        qed
      qed
      from frame inv show ?thesis by simp
    qed (use flagged_in_object [OF v flag True] in auto)
  qed
qed

lemma decorate_keys_store_frame:
  assumes "decorate_keys_store ks schema h = (h', r)" and "n0 \<le> length h"
    and "\<forall>b. s_get h schema (Name ''properties'') = Inr (SRef b) \<longrightarrow> b = p \<or> n0 \<le> b"
    and "a < n0" and "a \<noteq> p"
  shows "h' ! a = h ! a"
  using assms
proof (induction ks arbitrary: h)
  case Nil
  then show ?case by simp
next
  case (Cons k ks)
  show ?case
  proof (cases "decorate_prop schema k h")
    case (Inl e)
    with Cons.prems show ?thesis by simp
  next
    case (Inr h2)
    with Cons.prems have run: "decorate_keys_store ks schema h2 = (h', r)" by simp
    note f = decorate_prop_frame [OF Inr Cons.prems(2,3)]
    have l: "n0 \<le> length h2" using decorate_prop_length [OF Inr] Cons.prems(2) by simp
    have "h' ! a = h2 ! a"
      using Cons.IH [OF run l _ Cons.prems(4,5)] f by blast
    with f Cons.prems(4,5) show ?thesis by simp
  qed
qed

text \<open>The decoration changes no object of the store but the properties object.\<close>

lemma decorateWithNullable_store_frame:
  assumes "decorateWithNullable_store schema h = (h', r)" and "a < length h"
    and "s_get h schema (Name ''properties'') \<noteq> Inr (SRef a)"
  shows "h' ! a = h ! a"
proof (cases "s_truthy schema")
  case False
  with assms show ?thesis by (simp add: decorateWithNullable_store_def)
next
  case True
  then obtain props where props: "s_get h schema (Name ''properties'') = Inr props"
    by (cases schema) auto
  show ?thesis
  proof (cases "s_truthy props")
    case False
    with True props assms show ?thesis by (simp add: decorateWithNullable_store_def)
  next
    case t: True
    have run: "decorate_keys_store (s_keys h props) schema h = (h', r)"
      using assms(1) True props t by (simp add: decorateWithNullable_store_def)
    define p where "p = (case props of SRef b \<Rightarrow> b | _ \<Rightarrow> length h)"
    have inv: "\<forall>b. s_get h schema (Name ''properties'') = Inr (SRef b) \<longrightarrow> b = p \<or> length h \<le> b"
      using props by (auto simp: p_def)
    have "a \<noteq> p" using assms(2,3) props by (auto simp: p_def split: sval.splits)
    from decorate_keys_store_frame [OF run _ inv assms(2) this] show ?thesis by simp
  qed
qed

lemma decorateWithNullable_store_length:
  "decorateWithNullable_store schema h = (h', r) \<Longrightarrow> length h \<le> length h'"
  by (auto simp: decorateWithNullable_store_def split: if_splits sum.splits
      dest: decorate_keys_store_length)

text \<open>The loop when the schema object is not its own properties object.\<close>

lemma replaced_eq:
  "p < length h \<Longrightarrow>
   replaced h p k =
     (h @ [CObj [(Name ''type'', SStr ''null'')],
           CArr [cell_get (h ! p) k, SRef (length h)],
           CObj [(Name ''oneOf'', SRef (length h + 1))]])
       [p := cell_set (h ! p) k (SRef (length h + 2))]"
  by (simp add: replaced_def new_choice_def nth_append)

lemma replaced_length: "p < length h \<Longrightarrow> length (replaced h p k) = length h + 3"
  by (simp add: replaced_eq)

lemma replaced_other: "p < length h \<Longrightarrow> a < length h \<Longrightarrow> a \<noteq> p \<Longrightarrow> replaced h p k ! a = h ! a"
  by (simp add: replaced_eq nth_append)

lemma replaced_same: "p < length h \<Longrightarrow> replaced h p k ! p = cell_set (h ! p) k (SRef (length h + 2))"
  by (simp add: replaced_eq nth_append)

lemma replaced_fresh:
  assumes "p < length h"
  shows "replaced h p k ! length h = CObj [(Name ''type'', SStr ''null'')]"
    and "replaced h p k ! (length h + 1) = CArr [cell_get (h ! p) k, SRef (length h)]"
    and "replaced h p k ! (length h + 2) = CObj [(Name ''oneOf'', SRef (length h + 1))]"
  using assms by (simp_all add: replaced_eq nth_append)

lemma marked_nullable_ref: "marked_nullable h v \<Longrightarrow> \<exists>b. v = SRef b \<and> b < length h"
  by (cases v) (auto simp: marked_nullable_def split: if_splits)

lemma replaced_marked:
  assumes "p < length h" and "marked_nullable h (cell_get (h ! p) k)"
  shows "marked_nullable (replaced h p k) w = marked_nullable h w"
proof (cases w)
  case (SRef b)
  note l = replaced_length [OF assms(1), of k]
  consider "b < length h \<and> b \<noteq> p" | "b = p" | "b = length h" | "b = length h + 1"
    | "b = length h + 2" | "length h + 3 \<le> b" by linarith
  then show ?thesis
  proof cases
    case 1
    then show ?thesis
      using replaced_other [OF assms(1), of b k] l by (simp add: marked_nullable_def SRef)
  next
    case 2
    show ?thesis
    proof (cases "k = Name ''x-nullable''")
      case False
      then show ?thesis
        using assms(1) l 2 replaced_same [OF assms(1), of k]
        by (simp add: marked_nullable_def SRef cell_get_set_other)
    next
      case True
      from marked_nullable_ref [OF assms(2)] obtain c where
        c: "cell_get (h ! p) k = SRef c" by blast
      have old: "marked_nullable h w"
        using assms(1) 2 c True by (simp add: marked_nullable_def SRef)
      from cell_get_set_cases [of "h ! p" k "SRef (length h + 2)" k] c
      have "s_truthy (cell_get (cell_set (h ! p) k (SRef (length h + 2))) k)" by auto
      then have "marked_nullable (replaced h p k) w"
        using assms(1) l 2 True replaced_same [OF assms(1), of k]
        by (simp add: marked_nullable_def SRef)
      with old show ?thesis by simp
    qed
  next
    case 3
    then show ?thesis
      using replaced_fresh(1) [OF assms(1), of k] l by (simp add: marked_nullable_def SRef)
  next
    case 4
    then show ?thesis
      using replaced_fresh(2) [OF assms(1), of k] l by (simp add: marked_nullable_def SRef)
  next
    case 5
    then show ?thesis
      using replaced_fresh(3) [OF assms(1), of k] l by (simp add: marked_nullable_def SRef)
  next
    case 6
    then show ?thesis using l by (simp add: marked_nullable_def SRef)
  qed
qed (simp_all add: marked_nullable_def)

lemma replaced_regular: "regular h s p \<Longrightarrow> regular (replaced h p k) s p"
  by (simp add: regular_def replaced_length replaced_other)

lemma decorate_prop_regular:
  assumes "regular h s p"
  shows "decorate_prop (SRef s) k h =
           (if cell_get (h ! p) k = SUndefined \<or> cell_get (h ! p) k = SNull then Inl TypeError
            else Inr (if marked_nullable h (cell_get (h ! p) k) then replaced h p k else h))"
proof -
  have a: "s_get h (SRef s) (Name ''properties'') = Inr (SRef p)"
    using assms by (simp add: regular_def)
  have b: "s_get h (SRef p) k = Inr (cell_get (h ! p) k)"
    using assms by (simp add: regular_def)
  show ?thesis
  proof (cases "s_get h (cell_get (h ! p) k) (Name ''x-nullable'')")
    case (Inl e)
    then show ?thesis using s_get_throws [of h "cell_get (h ! p) k" "Name ''x-nullable''" e]
      by (simp add: decorate_prop_def a b del: s_get.simps)
  next
    case (Inr flag)
    then have "\<not> (cell_get (h ! p) k = SUndefined \<or> cell_get (h ! p) k = SNull)" by auto
    then show ?thesis
      using Inr by (simp add: decorate_prop_def a b marked_nullable_def replaced_def
          del: s_get.simps s_set.simps)
  qed
qed

lemma decorate_keys_store_regular:
  assumes "regular h s p"
  shows "decorate_keys_store (k # ks) (SRef s) h =
           (if cell_get (h ! p) k = SUndefined \<or> cell_get (h ! p) k = SNull
            then (h, Some TypeError)
            else decorate_keys_store ks (SRef s)
                   (if marked_nullable h (cell_get (h ! p) k) then replaced h p k else h))"
  by (simp add: decorate_prop_regular [OF assms])

lemma regular_frame:
  assumes "regular h s p" and "decorate_keys_store ks (SRef s) h = (h', r)"
    and "a < length h" and "a \<noteq> p"
  shows "h' ! a = h ! a"
proof -
  have "\<forall>b. s_get h (SRef s) (Name ''properties'') = Inr (SRef b) \<longrightarrow> b = p \<or> length h \<le> b"
    using assms(1) by (simp add: regular_def)
  from decorate_keys_store_frame [OF assms(2) _ this assms(3,4)] show ?thesis by simp
qed

lemma regular_kept:
  assumes "regular h s p" and "decorate_keys_store ks (SRef s) h = (h', r)"
  shows "regular h' s p"
proof -
  from assms(1) have s: "s < length h" "s \<noteq> p" "p < length h" by (simp_all add: regular_def)
  have "h' ! s = h ! s" using regular_frame [OF assms s(1,2)] .
  moreover have "length h \<le> length h'" using decorate_keys_store_length [OF assms(2)] .
  ultimately show ?thesis using assms(1) by (simp add: regular_def)
qed

lemma regular_marked:
  assumes "regular h s p" and "decorate_keys_store ks (SRef s) h = (h', r)"
  shows "marked_nullable h' w = marked_nullable h w"
  using assms
proof (induction ks arbitrary: h)
  case Nil
  then show ?case by simp
next
  case (Cons k ks)
  note reg = Cons.prems(1)
  note step = Cons.prems(2) [unfolded decorate_keys_store_regular [OF reg]]
  from reg have p: "p < length h" by (simp add: regular_def)
  show ?case
  proof (cases "cell_get (h ! p) k = SUndefined \<or> cell_get (h ! p) k = SNull")
    case True
    with step show ?thesis by simp
  next
    case False
    show ?thesis
    proof (cases "marked_nullable h (cell_get (h ! p) k)")
      case True
      with False step have run: "decorate_keys_store ks (SRef s) (replaced h p k) = (h', r)"
        by simp
      from Cons.IH [OF replaced_regular [OF reg] run] replaced_marked [OF p True]
      show ?thesis by simp
    next
      case m: False
      with False step have run: "decorate_keys_store ks (SRef s) h = (h', r)"
        by simp
      from Cons.IH [OF reg run] show ?thesis .
    qed
  qed
qed

text \<open>A property that is not marked is left as it is.\<close>

lemma regular_keep:
  assumes "regular h s p" and "decorate_keys_store ks (SRef s) h = (h', r)"
    and "\<not> marked_nullable h (cell_get (h ! p) x)"
  shows "cell_get (h' ! p) x = cell_get (h ! p) x"
  using assms
proof (induction ks arbitrary: h)
  case Nil
  then show ?case by simp
next
  case (Cons k ks)
  note reg = Cons.prems(1)
  note step = Cons.prems(2) [unfolded decorate_keys_store_regular [OF reg]]
  from reg have p: "p < length h" by (simp add: regular_def)
  show ?case
  proof (cases "cell_get (h ! p) k = SUndefined \<or> cell_get (h ! p) k = SNull")
    case True
    with step show ?thesis by simp
  next
    case False
    show ?thesis
    proof (cases "marked_nullable h (cell_get (h ! p) k)")
      case True
      with False step have run: "decorate_keys_store ks (SRef s) (replaced h p k) = (h', r)"
        by simp
      from True Cons.prems(3) have kx: "x \<noteq> k" by auto
      have same: "cell_get (replaced h p k ! p) x = cell_get (h ! p) x"
        using kx by (simp add: replaced_same [OF p] cell_get_set_other)
      have "\<not> marked_nullable (replaced h p k) (cell_get (replaced h p k ! p) x)"
        using Cons.prems(3) by (simp add: same replaced_marked [OF p True])
      from Cons.IH [OF replaced_regular [OF reg] run this] same show ?thesis by simp
    next
      case m: False
      with False step have run: "decorate_keys_store ks (SRef s) h = (h', r)"
        by simp
      from Cons.IH [OF reg run Cons.prems(3)] show ?thesis .
    qed
  qed
qed

lemma regular_keys:
  assumes "regular h s p" and "decorate_keys_store ks (SRef s) h = (h', r)"
    and "set ks \<subseteq> set (cell_keys (h ! p))"
  shows "cell_keys (h' ! p) = cell_keys (h ! p)"
  using assms
proof (induction ks arbitrary: h)
  case Nil
  then show ?case by simp
next
  case (Cons k ks)
  note reg = Cons.prems(1)
  note step = Cons.prems(2) [unfolded decorate_keys_store_regular [OF reg]]
  from reg have p: "p < length h" by (simp add: regular_def)
  from Cons.prems(3) have kin: "k \<in> set (cell_keys (h ! p))"
    and sub: "set ks \<subseteq> set (cell_keys (h ! p))" by auto
  show ?case
  proof (cases "cell_get (h ! p) k = SUndefined \<or> cell_get (h ! p) k = SNull")
    case True
    with step show ?thesis by simp
  next
    case False
    show ?thesis
    proof (cases "marked_nullable h (cell_get (h ! p) k)")
      case True
      with False step have run: "decorate_keys_store ks (SRef s) (replaced h p k) = (h', r)"
        by simp
      have keys: "cell_keys (replaced h p k ! p) = cell_keys (h ! p)"
        using kin by (simp add: replaced_same [OF p] cell_keys_set)
      from Cons.IH [OF replaced_regular [OF reg] run] sub keys show ?thesis by simp
    next
      case m: False
      with False step have run: "decorate_keys_store ks (SRef s) h = (h', r)"
        by simp
      from Cons.IH [OF reg run sub] show ?thesis .
    qed
  qed
qed

text \<open>A marked property ends as a reference to a new choice that holds the original.\<close>

lemma regular_choice:
  assumes "regular h s p" and "decorate_keys_store ks (SRef s) h = (h', None)"
    and "set ks \<subseteq> set (cell_keys (h ! p))"
    and "x \<in> set ks" and "marked_nullable h (cell_get (h ! p) x)"
  shows "\<exists>n. length h \<le> n \<and> n + 2 < length h'
           \<and> cell_get (h' ! p) x = SRef (n + 2)
           \<and> h' ! n = CObj [(Name ''type'', SStr ''null'')]
           \<and> h' ! (n + 1) = CArr [cell_get (h ! p) x, SRef n]
           \<and> h' ! (n + 2) = CObj [(Name ''oneOf'', SRef (n + 1))]"
  using assms
proof (induction ks arbitrary: h)
  case Nil
  then show ?case by simp
next
  case (Cons k ks)
  note reg = Cons.prems(1)
  note step = Cons.prems(2) [unfolded decorate_keys_store_regular [OF reg]]
  from reg have p: "p < length h" by (simp add: regular_def)
  from Cons.prems(3) have kin: "k \<in> set (cell_keys (h ! p))"
    and sub: "set ks \<subseteq> set (cell_keys (h ! p))" by auto
  have nothrow: "\<not> (cell_get (h ! p) k = SUndefined \<or> cell_get (h ! p) k = SNull)"
    using step by (auto split: if_splits)
  show ?case
  proof (cases "marked_nullable h (cell_get (h ! p) k)")
    case True
    let ?h2 = "replaced h p k"
    from True nothrow step have run: "decorate_keys_store ks (SRef s) ?h2 = (h', None)"
      by simp
    note reg2 = replaced_regular [OF reg, of k]
    have keys: "cell_keys (?h2 ! p) = cell_keys (h ! p)"
      using kin by (simp add: replaced_same [OF p] cell_keys_set)
    note l2 = replaced_length [OF p, of k]
    show ?thesis
    proof (cases "x = k")
      case xk: True
      have now: "cell_get (?h2 ! p) x = SRef (length h + 2)"
        using kin xk by (simp add: replaced_same [OF p] cell_get_set_key)
      have "\<not> marked_nullable ?h2 (SRef (length h + 2))"
        using replaced_fresh(3) [OF p, of k] l2 by (simp add: marked_nullable_def)
      then have "\<not> marked_nullable ?h2 (cell_get (?h2 ! p) x)" by (simp add: now)
      from regular_keep [OF reg2 run this] now
      have a: "cell_get (h' ! p) x = SRef (length h + 2)" by simp
      have b: "h' ! length h = CObj [(Name ''type'', SStr ''null'')]"
        using regular_frame [OF reg2 run, of "length h"] p l2 replaced_fresh(1) [OF p, of k]
        by simp
      have c: "h' ! (length h + 1) = CArr [cell_get (h ! p) x, SRef (length h)]"
        using regular_frame [OF reg2 run, of "length h + 1"] p l2 replaced_fresh(2) [OF p, of k] xk
        by simp
      have d: "h' ! (length h + 2) = CObj [(Name ''oneOf'', SRef (length h + 1))]"
        using regular_frame [OF reg2 run, of "length h + 2"] p l2 replaced_fresh(3) [OF p, of k]
        by simp
      have e: "length h + 2 < length h'"
        using decorate_keys_store_length [OF run] l2 by simp
      from a b c d e show ?thesis by (intro exI [of _ "length h"]) simp
    next
      case False
      then have xin: "x \<in> set ks" using Cons.prems(4) by simp
      have same: "cell_get (?h2 ! p) x = cell_get (h ! p) x"
        using False by (simp add: replaced_same [OF p] cell_get_set_other)
      have m: "marked_nullable ?h2 (cell_get (?h2 ! p) x)"
        using Cons.prems(5) by (simp add: same replaced_marked [OF p True])
      from Cons.IH [OF reg2 run _ xin m] sub keys same l2
      show ?thesis by (auto simp: Suc_le_eq)
    qed
  next
    case False
    with nothrow step have run: "decorate_keys_store ks (SRef s) h = (h', None)"
      by simp
    from False Cons.prems(5) have "x \<noteq> k" by auto
    then have xin: "x \<in> set ks" using Cons.prems(4) by simp
    from Cons.IH [OF reg run sub xin Cons.prems(5)] show ?thesis .
  qed
qed

text \<open>Running the loop once more changes nothing and ends the same way.\<close>

lemma regular_again:
  assumes "regular h s p" and "decorate_keys_store ks (SRef s) h = (h', r)"
    and "set ks \<subseteq> set (cell_keys (h ! p))"
  shows "decorate_keys_store ks (SRef s) h' = (h', r)"
  using assms
proof (induction ks arbitrary: h)
  case Nil
  then show ?case by simp
next
  case (Cons k ks)
  note reg = Cons.prems(1)
  note step = Cons.prems(2) [unfolded decorate_keys_store_regular [OF reg]]
  from reg have p: "p < length h" by (simp add: regular_def)
  from Cons.prems(3) have kin: "k \<in> set (cell_keys (h ! p))"
    and sub: "set ks \<subseteq> set (cell_keys (h ! p))" by auto
  show ?case
  proof (cases "cell_get (h ! p) k = SUndefined \<or> cell_get (h ! p) k = SNull")
    case True
    with step have "h' = h" "r = Some TypeError"
      by simp_all
    with True show ?thesis
      by (simp add: decorate_keys_store_regular [OF reg] del: decorate_keys_store.simps)
  next
    case False
    define h2 where "h2 = (if marked_nullable h (cell_get (h ! p) k) then replaced h p k else h)"
    have run: "decorate_keys_store ks (SRef s) h2 = (h', r)"
      using False step by (simp add: h2_def)
    have reg2: "regular h2 s p" using reg by (simp add: h2_def replaced_regular)
    have keys: "cell_keys (h2 ! p) = cell_keys (h ! p)"
      using kin by (simp add: h2_def replaced_same [OF p] cell_keys_set)
    have again: "decorate_keys_store ks (SRef s) h' = (h', r)"
      using Cons.IH [OF reg2 run] sub keys by simp
    have settled: "\<not> marked_nullable h2 (cell_get (h2 ! p) k)
                   \<and> cell_get (h2 ! p) k \<noteq> SUndefined \<and> cell_get (h2 ! p) k \<noteq> SNull"
    proof (cases "marked_nullable h (cell_get (h ! p) k)")
      case True
      have "cell_get (h2 ! p) k = SRef (length h + 2)"
        using kin True by (simp add: h2_def replaced_same [OF p] cell_get_set_key)
      moreover have "\<not> marked_nullable h2 (SRef (length h + 2))"
        using replaced_fresh(3) [OF p, of k] replaced_length [OF p, of k] True
        by (simp add: marked_nullable_def h2_def)
      ultimately show ?thesis by simp
    next
      case m: False
      with False show ?thesis by (simp add: h2_def)
    qed
    have v: "cell_get (h' ! p) k = cell_get (h2 ! p) k"
      using regular_keep [OF reg2 run] settled by simp
    have "\<not> marked_nullable h' (cell_get (h' ! p) k)"
      using settled regular_marked [OF reg2 run] v by simp
    moreover have "\<not> (cell_get (h' ! p) k = SUndefined \<or> cell_get (h' ! p) k = SNull)"
      using settled v by simp
    ultimately show ?thesis
      using again
      by (simp add: decorate_keys_store_regular [OF regular_kept [OF reg2 run]]
          del: decorate_keys_store.simps)
  qed
qed

subsection \<open>The decoration on the store\<close>

lemma s_get_ref: "s_get h v k = Inr (SRef b) \<Longrightarrow> \<exists>a. v = SRef a \<and> a < length h"
  by (cases v; cases k) (auto split: if_splits)

lemma s_get_truthy: "s_truthy v \<Longrightarrow> \<exists>w. s_get h v k = Inr w"
  by (cases v; cases k) auto

lemma decorate_prop_error: "decorate_prop schema k h = Inl e \<Longrightarrow> e = TypeError"
  by (auto simp: decorate_prop_def s_get_throws split: sum.splits)

lemma decorate_keys_store_error:
  "decorate_keys_store ks schema h = (h', Some e) \<Longrightarrow> e = TypeError"
proof (induction ks arbitrary: h)
  case Nil
  then show ?case by simp
next
  case (Cons k ks)
  then show ?case
    by (cases "decorate_prop schema k h") (auto dest: decorate_prop_error)
qed

lemma decorateWithNullable_store_error:
  "decorateWithNullable_store schema h = (h', Some e) \<Longrightarrow> e = TypeError"
  by (auto simp: decorateWithNullable_store_def s_get_throws split: if_splits sum.splits
      dest: decorate_keys_store_error)

text \<open>Without a properties object in the store nothing is assigned.\<close>

lemma decorate_prop_same:
  assumes "decorate_prop schema k h = Inr h2"
    and "\<forall>b. s_get h schema (Name ''properties'') = Inr (SRef b) \<longrightarrow> length h \<le> b"
  shows "h2 = h"
proof -
  obtain props where props: "s_get h schema (Name ''properties'') = Inr props"
    using assms(1) by (cases "s_get h schema (Name ''properties'')") (simp_all add: decorate_prop_def)
  obtain v where v: "s_get h props k = Inr v"
    using assms(1) props by (cases "s_get h props k") (simp_all add: decorate_prop_def)
  obtain flag where flag: "s_get h v (Name ''x-nullable'') = Inr flag"
    using assms(1) props v
    by (cases "s_get h v (Name ''x-nullable'')") (simp_all add: decorate_prop_def)
  show ?thesis
  proof (cases "s_truthy flag")
    case True
    from flagged_in_object [OF v flag True] assms(2) props show ?thesis by auto
  next
    case False
    with assms(1) props v flag show ?thesis by (simp add: decorate_prop_def)
  qed
qed

lemma decorate_keys_store_same:
  assumes "decorate_keys_store ks schema h = (h', r)"
    and "\<forall>b. s_get h schema (Name ''properties'') = Inr (SRef b) \<longrightarrow> length h \<le> b"
  shows "h' = h"
  using assms
proof (induction ks arbitrary: h)
  case Nil
  then show ?case by simp
next
  case (Cons k ks)
  show ?case
  proof (cases "decorate_prop schema k h")
    case (Inl e)
    with Cons.prems show ?thesis by simp
  next
    case (Inr h2)
    from decorate_prop_same [OF Inr Cons.prems(2)] have "h2 = h" .
    with Inr Cons.prems have "decorate_keys_store ks schema h = (h', r)" by simp
    from Cons.IH [OF this Cons.prems(2)] show ?thesis .
  qed
qed

lemma decorateWithNullable_store_same:
  assumes "decorateWithNullable_store schema h = (h', r)"
    and "\<forall>b. s_get h schema (Name ''properties'') = Inr (SRef b) \<longrightarrow> length h \<le> b"
  shows "h' = h"
  using assms
  by (auto simp: decorateWithNullable_store_def split: if_splits sum.splits
      dest: decorate_keys_store_same)

lemma decorateWithNullable_store_regular:
  assumes "regular h s p"
  shows "decorateWithNullable_store (SRef s) h =
           decorate_keys_store (cell_keys (h ! p)) (SRef s) h"
  using assms by (simp add: decorateWithNullable_store_def regular_def)

lemma properties_regular:
  assumes "s_get h schema (Name ''properties'') = Inr (SRef p)" and "schema \<noteq> SRef p"
    and "p < length h"
  shows "\<exists>s. schema = SRef s \<and> regular h s p"
proof -
  from s_get_ref [OF assms(1)] obtain s where s: "schema = SRef s" "s < length h" by blast
  with assms show ?thesis by (auto simp: regular_def)
qed

lemma decorateWithNullable_store_cases:
  assumes "decorateWithNullable_store schema h = (h', r)"
    and "\<forall>p. s_get h schema (Name ''properties'') = Inr (SRef p) \<longrightarrow> schema \<noteq> SRef p"
  shows "h' = h \<or> (\<exists>s p. schema = SRef s \<and> regular h s p)"
proof (cases "\<exists>p. s_get h schema (Name ''properties'') = Inr (SRef p) \<and> p < length h")
  case True
  then obtain p where p: "s_get h schema (Name ''properties'') = Inr (SRef p)" "p < length h"
    by blast
  with assms(2) have "schema \<noteq> SRef p" by simp
  from properties_regular [OF p(1) this p(2)] show ?thesis by blast
next
  case False
  then have "\<forall>b. s_get h schema (Name ''properties'') = Inr (SRef b) \<longrightarrow> length h \<le> b"
    by (meson not_le_imp_less)
  from decorateWithNullable_store_same [OF assms(1) this] show ?thesis by simp
qed

text \<open>Decorating once more changes nothing and ends the same way.\<close>

lemma decorateWithNullable_store_again:
  assumes "decorateWithNullable_store schema h = (h', r)"
    and "\<forall>p. s_get h schema (Name ''properties'') = Inr (SRef p) \<longrightarrow> schema \<noteq> SRef p"
  shows "decorateWithNullable_store schema h' = (h', r)"
proof -
  from decorateWithNullable_store_cases [OF assms]
  consider "h' = h" | s p where "schema = SRef s" "regular h s p" by blast
  then show ?thesis
  proof cases
    case 1
    with assms(1) show ?thesis by simp
  next
    case 2
    have run: "decorate_keys_store (cell_keys (h ! p)) (SRef s) h = (h', r)"
      using assms(1) 2 by (simp add: decorateWithNullable_store_regular)
    have reg': "regular h' s p" using regular_kept [OF 2(2) run] .
    have keys: "cell_keys (h' ! p) = cell_keys (h ! p)"
      using regular_keys [OF 2(2) run] by simp
    have "decorate_keys_store (cell_keys (h ! p)) (SRef s) h' = (h', r)"
      using regular_again [OF 2(2) run] by simp
    then show ?thesis
      using 2(1) keys by (simp add: decorateWithNullable_store_regular [OF reg'])
  qed
qed

text \<open>What the decoration does to the properties object.\<close>

lemma decorateWithNullable_store_effect:
  assumes "decorateWithNullable_store schema h = (h', r)"
    and "s_get h schema (Name ''properties'') = Inr (SRef p)" and "schema \<noteq> SRef p"
    and "x \<in> set (s_keys h (SRef p))"
  shows "s_get h' schema (Name ''properties'') = Inr (SRef p)
       \<and> s_keys h' (SRef p) = s_keys h (SRef p)
       \<and> (\<not> marked_nullable h (cell_get (h ! p) x) \<longrightarrow>
            cell_get (h' ! p) x = cell_get (h ! p) x)
       \<and> (marked_nullable h (cell_get (h ! p) x) \<and> r = None \<longrightarrow>
            (\<exists>n. length h \<le> n \<and> n + 2 < length h'
                 \<and> cell_get (h' ! p) x = SRef (n + 2)
                 \<and> h' ! n = CObj [(Name ''type'', SStr ''null'')]
                 \<and> h' ! (n + 1) = CArr [cell_get (h ! p) x, SRef n]
                 \<and> h' ! (n + 2) = CObj [(Name ''oneOf'', SRef (n + 1))]))"
proof -
  have p: "p < length h" using assms(4) by (cases "p < length h") auto
  from properties_regular [OF assms(2,3) p] obtain s where
    s: "schema = SRef s" and reg: "regular h s p" by blast
  have run: "decorate_keys_store (cell_keys (h ! p)) (SRef s) h = (h', r)"
    using assms(1) s reg by (simp add: decorateWithNullable_store_regular)
  have reg': "regular h' s p" using regular_kept [OF reg run] .
  have x: "x \<in> set (cell_keys (h ! p))" using assms(4) p by simp
  have 1: "s_get h' schema (Name ''properties'') = Inr (SRef p)"
    using reg' s by (simp add: regular_def)
  have 2: "s_keys h' (SRef p) = s_keys h (SRef p)"
    using regular_keys [OF reg run] reg' p by (simp add: regular_def)
  have 3: "\<not> marked_nullable h (cell_get (h ! p) x) \<longrightarrow>
            cell_get (h' ! p) x = cell_get (h ! p) x"
    using regular_keep [OF reg run] by blast
  have 4: "marked_nullable h (cell_get (h ! p) x) \<and> r = None \<longrightarrow>
            (\<exists>n. length h \<le> n \<and> n + 2 < length h'
                 \<and> cell_get (h' ! p) x = SRef (n + 2)
                 \<and> h' ! n = CObj [(Name ''type'', SStr ''null'')]
                 \<and> h' ! (n + 1) = CArr [cell_get (h ! p) x, SRef n]
                 \<and> h' ! (n + 2) = CObj [(Name ''oneOf'', SRef (n + 1))])"
  proof
    assume a: "marked_nullable h (cell_get (h ! p) x) \<and> r = None"
    with run have run': "decorate_keys_store (cell_keys (h ! p)) (SRef s) h = (h', None)" by simp
    from regular_choice [OF reg run' _ x] a
    show "\<exists>n. length h \<le> n \<and> n + 2 < length h'
                 \<and> cell_get (h' ! p) x = SRef (n + 2)
                 \<and> h' ! n = CObj [(Name ''type'', SStr ''null'')]
                 \<and> h' ! (n + 1) = CArr [cell_get (h ! p) x, SRef n]
                 \<and> h' ! (n + 2) = CObj [(Name ''oneOf'', SRef (n + 1))]"
      by simp
  qed
  from 1 2 3 4 show ?thesis by (intro conjI)
qed

subsection \<open>The closing lines of the resolvers on the store\<close>

lemma finish_resolve_store_registry:
  "finish_resolve_store opts st schema = (st', out) \<Longrightarrow> pathObjects_s st' = pathObjects_s st"
  by (auto simp: finish_resolve_store_def split: if_splits prod.splits)

lemma finish_resolve_store_off:
  "\<not> allowNullable opts \<Longrightarrow> finish_resolve_store opts st schema = (st, Inr schema)"
  by (simp add: finish_resolve_store_def)

lemma finish_resolve_store_on:
  assumes "finish_resolve_store opts st schema = (st', out)" and "allowNullable opts"
  shows "\<exists>r. decorateWithNullable_store schema (heap st) = (heap st', r)
            \<and> st' = st\<lparr>heap := heap st'\<rparr>
            \<and> out = (case r of None \<Rightarrow> Inr schema | Some e \<Rightarrow> Inl e)"
  using assms by (auto simp: finish_resolve_store_def split: prod.splits)

lemma finish_resolve_store_out:
  "finish_resolve_store opts st schema = (st', out) \<Longrightarrow> out = Inr schema \<or> out = Inl TypeError"
  by (auto simp: finish_resolve_store_def split: if_splits prod.splits option.splits
      dest: decorateWithNullable_store_error)

lemma finish_resolve_store_length:
  "finish_resolve_store opts st schema = (st', out) \<Longrightarrow> length (heap st) \<le> length (heap st')"
  by (auto simp: finish_resolve_store_def split: if_splits prod.splits
      dest: decorateWithNullable_store_length)

lemma finish_resolve_store_frame:
  assumes "finish_resolve_store opts st schema = (st', out)" and "a < length (heap st)"
    and "s_get (heap st) schema (Name ''properties'') \<noteq> Inr (SRef a)"
  shows "heap st' ! a = heap st ! a"
proof (cases "allowNullable opts")
  case False
  with assms(1) show ?thesis by (simp add: finish_resolve_store_off)
next
  case True
  from finish_resolve_store_on [OF assms(1) True] obtain r where
    "decorateWithNullable_store schema (heap st) = (heap st', r)" by blast
  from decorateWithNullable_store_frame [OF this assms(2,3)] show ?thesis .
qed

lemma finish_resolve_store_again:
  assumes "finish_resolve_store opts st schema = (st', out)"
    and "\<forall>p. s_get (heap st) schema (Name ''properties'') = Inr (SRef p) \<longrightarrow> schema \<noteq> SRef p"
  shows "finish_resolve_store opts st' schema = (st', out)"
proof (cases "allowNullable opts")
  case False
  with assms(1) show ?thesis by (simp add: finish_resolve_store_off)
next
  case True
  from finish_resolve_store_on [OF assms(1) True] obtain r where
    d: "decorateWithNullable_store schema (heap st) = (heap st', r)"
    and o: "out = (case r of None \<Rightarrow> Inr schema | Some e \<Rightarrow> Inl e)" by blast
  from decorateWithNullable_store_again [OF d assms(2)] True o
  show ?thesis by (simp add: finish_resolve_store_def)
qed

lemma finish_resolve_store_effect:
  assumes "finish_resolve_store opts st schema = (st', out)" and "allowNullable opts"
    and "s_get (heap st) schema (Name ''properties'') = Inr (SRef p)" and "schema \<noteq> SRef p"
    and "x \<in> set (s_keys (heap st) (SRef p))"
  shows "s_get (heap st') schema (Name ''properties'') = Inr (SRef p)
       \<and> s_keys (heap st') (SRef p) = s_keys (heap st) (SRef p)
       \<and> (\<not> marked_nullable (heap st) (cell_get (heap st ! p) x) \<longrightarrow>
            cell_get (heap st' ! p) x = cell_get (heap st ! p) x)
       \<and> (marked_nullable (heap st) (cell_get (heap st ! p) x) \<and> out = Inr schema \<longrightarrow>
            (\<exists>n. length (heap st) \<le> n \<and> n + 2 < length (heap st')
                 \<and> cell_get (heap st' ! p) x = SRef (n + 2)
                 \<and> heap st' ! n = CObj [(Name ''type'', SStr ''null'')]
                 \<and> heap st' ! (n + 1) = CArr [cell_get (heap st ! p) x, SRef n]
                 \<and> heap st' ! (n + 2) = CObj [(Name ''oneOf'', SRef (n + 1))]))"
proof -
  from finish_resolve_store_on [OF assms(1,2)] obtain r where
    d: "decorateWithNullable_store schema (heap st) = (heap st', r)"
    and o: "out = (case r of None \<Rightarrow> Inr schema | Some e \<Rightarrow> Inl e)" by blast
  have "out = Inr schema \<Longrightarrow> r = None" using o by (cases r) auto
  with decorateWithNullable_store_effect [OF d assms(3,4,5)] show ?thesis by blast
qed

subsection \<open>Finding the schema again\<close>

lemma s_get_stable:
  assumes "length h \<le> length h'" and "\<forall>a<length h. a \<noteq> p \<longrightarrow> h' ! a = h ! a"
    and "s_get h v k = Inr (SRef b)" and "v \<noteq> SRef p"
  shows "s_get h' v k = Inr (SRef b)"
proof -
  from s_get_ref [OF assms(3)] obtain a where a: "v = SRef a" "a < length h" by blast
  with assms show ?thesis by auto
qed

lemma s_get_stable_any:
  assumes "length h \<le> length h'" and "\<forall>a<length h. a \<noteq> p \<longrightarrow> h' ! a = h ! a"
    and "v = SRef a" and "a < length h" and "v \<noteq> SRef p"
  shows "s_get h' v k = s_get h v k"
  using assms by auto

lemma s_greater_zero_stable:
  "\<forall>a. len \<noteq> SRef a \<Longrightarrow> s_greater_zero ext eng h' len = s_greater_zero ext eng h len"
  by (cases len) simp_all

lemma request_schema_store_found:
  assumes "request_schema_store ext eng h pathObj m = Inr (SRef s)"
  shows "\<exists>entry params len first.
           s_truthy pathObj \<and> s_get h pathObj (Name m) = Inr entry \<and> s_truthy entry
           \<and> s_get h entry (Name ''parameters'') = Inr params \<and> s_truthy params
           \<and> s_get h params (Name ''length'') = Inr len \<and> s_greater_zero ext eng h len
           \<and> s_get h params (Idx 0) = Inr first
           \<and> s_get h first (Name ''schema'') = Inr (SRef s)"
  using assms by (auto simp: request_schema_store_def split: if_splits sum.splits)

lemma response_schema_store_found:
  assumes "response_schema_store h pathObj m sc = Inr (SRef s)"
  shows "\<exists>entry responses descriptor.
           s_truthy pathObj \<and> s_get h pathObj (Name m) = Inr entry
           \<and> s_get h entry (Name ''responses'') = Inr responses
           \<and> s_get h responses (Idx (status_or_200 sc)) = Inr descriptor
           \<and> s_truthy descriptor
           \<and> s_get h descriptor (Name ''schema'') = Inr (SRef s)"
  using assms by (auto simp: response_schema_store_def split: if_splits sum.splits)

lemma request_schema_store_stable:
  assumes "length h \<le> length h'" and "\<forall>a<length h. a \<noteq> p \<longrightarrow> h' ! a = h ! a"
    and "request_schema_store ext eng h pathObj m = Inr (SRef s)"
    and "SRef p \<notin> set (s_walk h pathObj [Name m, Name ''parameters'', Idx 0, Name ''schema''])"
    and "\<forall>a. s_lookup h pathObj [Name m, Name ''parameters'', Name ''length''] \<noteq> Inr (SRef a)"
  shows "request_schema_store ext eng h' pathObj m = Inr (SRef s)"
proof -
  from request_schema_store_found [OF assms(3)] obtain entry params len first where
    f: "s_truthy pathObj" "s_get h pathObj (Name m) = Inr entry" "s_truthy entry"
       "s_get h entry (Name ''parameters'') = Inr params" "s_truthy params"
       "s_get h params (Name ''length'') = Inr len" "s_greater_zero ext eng h len"
       "s_get h params (Idx 0) = Inr first"
       "s_get h first (Name ''schema'') = Inr (SRef s)"
    by blast
  from assms(4) f have w: "pathObj \<noteq> SRef p" "entry \<noteq> SRef p" "params \<noteq> SRef p"
    "first \<noteq> SRef p"
    by auto
  from assms(5) f have l: "\<forall>a. len \<noteq> SRef a" by auto
  from s_get_ref [OF f(9)] obtain a3 where a3: "first = SRef a3" "a3 < length h" by blast
  from s_get_ref [OF f(8) [unfolded a3(1)]] obtain a2 where
    a2: "params = SRef a2" "a2 < length h" by blast
  from s_get_ref [OF f(4) [unfolded a2(1)]] obtain a1 where
    a1: "entry = SRef a1" "a1 < length h" by blast
  from s_get_ref [OF f(2) [unfolded a1(1)]] obtain a0 where
    a0: "pathObj = SRef a0" "a0 < length h" by blast
  note st = s_get_stable_any [OF assms(1,2)]
  have g: "s_get h' pathObj (Name m) = Inr entry"
       "s_get h' entry (Name ''parameters'') = Inr params"
       "s_get h' params (Name ''length'') = Inr len"
       "s_get h' params (Idx 0) = Inr first"
       "s_get h' first (Name ''schema'') = Inr (SRef s)"
    using st [OF a0 w(1)] st [OF a1 w(2)] st [OF a2 w(3)] st [OF a3 w(4)] f
    by simp_all
  have z: "s_greater_zero ext eng h' len"
    using f(7) s_greater_zero_stable [OF l, of ext eng h' h] by simp
  show ?thesis
    using f(1,3,5) g z by (simp add: request_schema_store_def del: s_get.simps)
qed

lemma response_schema_store_stable:
  assumes "length h \<le> length h'" and "\<forall>a<length h. a \<noteq> p \<longrightarrow> h' ! a = h ! a"
    and "response_schema_store h pathObj m sc = Inr (SRef s)"
    and "SRef p \<notin> set (s_walk h pathObj
                          [Name m, Name ''responses'', Idx (status_or_200 sc), Name ''schema''])"
  shows "response_schema_store h' pathObj m sc = Inr (SRef s)"
proof -
  from response_schema_store_found [OF assms(3)] obtain entry responses descriptor where
    f: "s_truthy pathObj" "s_get h pathObj (Name m) = Inr entry"
       "s_get h entry (Name ''responses'') = Inr responses"
       "s_get h responses (Idx (status_or_200 sc)) = Inr descriptor"
       "s_truthy descriptor"
       "s_get h descriptor (Name ''schema'') = Inr (SRef s)"
    by blast
  from assms(4) f have w: "pathObj \<noteq> SRef p" "entry \<noteq> SRef p" "responses \<noteq> SRef p"
    "descriptor \<noteq> SRef p"
    by auto
  from s_get_ref [OF f(6)] obtain a3 where a3: "descriptor = SRef a3" "a3 < length h" by blast
  from s_get_ref [OF f(4) [unfolded a3(1)]] obtain a2 where
    a2: "responses = SRef a2" "a2 < length h" by blast
  from s_get_ref [OF f(3) [unfolded a2(1)]] obtain a1 where
    a1: "entry = SRef a1" "a1 < length h" by blast
  from s_get_ref [OF f(2) [unfolded a1(1)]] obtain a0 where
    a0: "pathObj = SRef a0" "a0 < length h" by blast
  note st = s_get_stable_any [OF assms(1,2)]
  have g: "s_get h' pathObj (Name m) = Inr entry"
       "s_get h' entry (Name ''responses'') = Inr responses"
       "s_get h' responses (Idx (status_or_200 sc)) = Inr descriptor"
       "s_get h' descriptor (Name ''schema'') = Inr (SRef s)"
    using st [OF a0 w(1)] st [OF a1 w(2)] st [OF a2 w(3)] st [OF a3 w(4)] f
    by simp_all
  show ?thesis
    using f(1,5) g by (simp add: response_schema_store_def del: s_get.simps)
qed

text \<open>The schema is the last object on the way.\<close>

lemma request_walk_last:
  assumes "request_schema_store ext eng h pathObj m = Inr (SRef s)"
  shows "SRef s \<in> set (s_walk h pathObj [Name m, Name ''parameters'', Idx 0, Name ''schema''])"
proof -
  from request_schema_store_found [OF assms] obtain entry params len first where
    "s_get h pathObj (Name m) = Inr entry"
    "s_get h entry (Name ''parameters'') = Inr params"
    "s_get h params (Idx 0) = Inr first"
    "s_get h first (Name ''schema'') = Inr (SRef s)"
    by blast
  then show ?thesis by simp
qed

lemma response_walk_last:
  assumes "response_schema_store h pathObj m sc = Inr (SRef s)"
  shows "SRef s \<in> set (s_walk h pathObj
                          [Name m, Name ''responses'', Idx (status_or_200 sc), Name ''schema''])"
proof -
  from response_schema_store_found [OF assms] obtain entry responses descriptor where
    "s_get h pathObj (Name m) = Inr entry"
    "s_get h entry (Name ''responses'') = Inr responses"
    "s_get h responses (Idx (status_or_200 sc)) = Inr descriptor"
    "s_get h descriptor (Name ''schema'') = Inr (SRef s)"
    by blast
  then show ?thesis by simp
qed

text \<open>The closing lines change the store at most in one object that was there.\<close>

lemma finish_resolve_store_state:
  "finish_resolve_store opts st schema = (st', out) \<Longrightarrow> st' = st\<lparr>heap := heap st'\<rparr>"
  by (auto simp: finish_resolve_store_def split: if_splits prod.splits)

lemma finish_resolve_store_changes:
  assumes "finish_resolve_store opts st schema = (st', out)"
  shows "st' = st
       \<or> (\<exists>p. s_get (heap st) schema (Name ''properties'') = Inr (SRef p)
              \<and> p < length (heap st) \<and> length (heap st) \<le> length (heap st')
              \<and> (\<forall>a<length (heap st). a \<noteq> p \<longrightarrow> heap st' ! a = heap st ! a))"
proof (cases "\<exists>p. s_get (heap st) schema (Name ''properties'') = Inr (SRef p)
                  \<and> p < length (heap st)")
  case False
  then have none: "\<forall>b. s_get (heap st) schema (Name ''properties'') = Inr (SRef b) \<longrightarrow>
                     length (heap st) \<le> b"
    by (meson not_le_imp_less)
  have "heap st' = heap st"
  proof (cases "allowNullable opts")
    case False
    with assms show ?thesis by (simp add: finish_resolve_store_off)
  next
    case True
    from finish_resolve_store_on [OF assms True] obtain r where
      "decorateWithNullable_store schema (heap st) = (heap st', r)" by blast
    from decorateWithNullable_store_same [OF this none] show ?thesis .
  qed
  with finish_resolve_store_state [OF assms] show ?thesis by simp
next
  case True
  then obtain p where p: "s_get (heap st) schema (Name ''properties'') = Inr (SRef p)"
    "p < length (heap st)" by blast
  have len: "length (heap st) \<le> length (heap st')"
    using finish_resolve_store_length [OF assms] .
  have frame: "\<forall>a<length (heap st). a \<noteq> p \<longrightarrow> heap st' ! a = heap st ! a"
  proof (intro allI impI)
    fix a assume "a < length (heap st)" "a \<noteq> p"
    then show "heap st' ! a = heap st ! a"
      using finish_resolve_store_frame [OF assms, of a] p(1) by simp
  qed
  from p len frame show ?thesis by blast
qed

subsection \<open>The two resolvers on the store\<close>

lemma resolveRequestModelSchema_store_shape:
  assumes "resolveRequestModelSchema_store ext eng opts st req = (st', out)"
  shows "(st' = st
          \<and> (\<forall>pathObj schema.
                matchUrlWithSchema_store ext (pathObjects_s st) (originalUrl req) = Inr pathObj
                \<longrightarrow> request_schema_store ext eng (heap st) pathObj (toLowerCase (method' req))
                      \<noteq> Inr schema))
       \<or> (\<exists>pathObj schema.
             matchUrlWithSchema_store ext (pathObjects_s st) (originalUrl req) = Inr pathObj
             \<and> request_schema_store ext eng (heap st) pathObj (toLowerCase (method' req))
                 = Inr schema
             \<and> finish_resolve_store opts st schema = (st', out))"
  using assms by (auto simp: resolveRequestModelSchema_store_def split: sum.splits)

lemma resolveResponseModelSchema_store_shape:
  assumes "resolveResponseModelSchema_store ext opts st req sc = (st', out)"
  shows "(st' = st
          \<and> (\<forall>pathObj schema.
                matchUrlWithSchema_store ext (pathObjects_s st) (originalUrl req) = Inr pathObj
                \<longrightarrow> response_schema_store (heap st) pathObj (toLowerCase (method' req)) sc
                      \<noteq> Inr schema))
       \<or> (\<exists>pathObj schema.
             matchUrlWithSchema_store ext (pathObjects_s st) (originalUrl req) = Inr pathObj
             \<and> response_schema_store (heap st) pathObj (toLowerCase (method' req)) sc
                 = Inr schema
             \<and> finish_resolve_store opts st schema = (st', out))"
  using assms by (auto simp: resolveResponseModelSchema_store_def split: sum.splits)

lemma request_store_registry:
  "resolveRequestModelSchema_store ext eng opts st req = (st', out) \<Longrightarrow>
   pathObjects_s st' = pathObjects_s st"
  using resolveRequestModelSchema_store_shape [of ext eng opts st req st' out]
  by (auto dest: finish_resolve_store_registry)

lemma response_store_registry:
  "resolveResponseModelSchema_store ext opts st req sc = (st', out) \<Longrightarrow>
   pathObjects_s st' = pathObjects_s st"
  using resolveResponseModelSchema_store_shape [of ext opts st req sc st' out]
  by (auto dest: finish_resolve_store_registry)

lemma request_store_off:
  "resolveRequestModelSchema_store ext eng opts st req = (st', out) \<Longrightarrow>
   \<not> allowNullable opts \<Longrightarrow> st' = st"
  using resolveRequestModelSchema_store_shape [of ext eng opts st req st' out]
  by (auto simp: finish_resolve_store_off)

lemma response_store_off:
  "resolveResponseModelSchema_store ext opts st req sc = (st', out) \<Longrightarrow>
   \<not> allowNullable opts \<Longrightarrow> st' = st"
  using resolveResponseModelSchema_store_shape [of ext opts st req sc st' out]
  by (auto simp: finish_resolve_store_off)

lemma request_store_length:
  "resolveRequestModelSchema_store ext eng opts st req = (st', out) \<Longrightarrow>
   length (heap st) \<le> length (heap st')"
  using resolveRequestModelSchema_store_shape [of ext eng opts st req st' out]
  by (auto dest: finish_resolve_store_length)

lemma response_store_length:
  "resolveResponseModelSchema_store ext opts st req sc = (st', out) \<Longrightarrow>
   length (heap st) \<le> length (heap st')"
  using resolveResponseModelSchema_store_shape [of ext opts st req sc st' out]
  by (auto dest: finish_resolve_store_length)

lemma request_store_frame:
  assumes "resolveRequestModelSchema_store ext eng opts st req = (st', out)"
    and "a < length (heap st)"
    and "\<forall>pathObj schema.
           matchUrlWithSchema_store ext (pathObjects_s st) (originalUrl req) = Inr pathObj
           \<and> request_schema_store ext eng (heap st) pathObj (toLowerCase (method' req))
               = Inr schema
           \<longrightarrow> s_get (heap st) schema (Name ''properties'') \<noteq> Inr (SRef a)"
  shows "heap st' ! a = heap st ! a"
  using resolveRequestModelSchema_store_shape [OF assms(1)] assms(2,3)
  by (auto dest: finish_resolve_store_frame)

lemma response_store_frame:
  assumes "resolveResponseModelSchema_store ext opts st req sc = (st', out)"
    and "a < length (heap st)"
    and "\<forall>pathObj schema.
           matchUrlWithSchema_store ext (pathObjects_s st) (originalUrl req) = Inr pathObj
           \<and> response_schema_store (heap st) pathObj (toLowerCase (method' req)) sc
               = Inr schema
           \<longrightarrow> s_get (heap st) schema (Name ''properties'') \<noteq> Inr (SRef a)"
  shows "heap st' ! a = heap st ! a"
  using resolveResponseModelSchema_store_shape [OF assms(1)] assms(2,3)
  by (auto dest: finish_resolve_store_frame)

lemma request_store_finish:
  assumes "resolveRequestModelSchema_store ext eng opts st req = (st', out)"
    and "matchUrlWithSchema_store ext (pathObjects_s st) (originalUrl req) = Inr pathObj"
    and "request_schema_store ext eng (heap st) pathObj (toLowerCase (method' req)) = Inr schema"
  shows "finish_resolve_store opts st schema = (st', out)"
  using assms by (simp add: resolveRequestModelSchema_store_def)

lemma response_store_finish:
  assumes "resolveResponseModelSchema_store ext opts st req sc = (st', out)"
    and "matchUrlWithSchema_store ext (pathObjects_s st) (originalUrl req) = Inr pathObj"
    and "response_schema_store (heap st) pathObj (toLowerCase (method' req)) sc = Inr schema"
  shows "finish_resolve_store opts st schema = (st', out)"
  using assms by (simp add: resolveResponseModelSchema_store_def)

lemma request_store_again:
  assumes run: "resolveRequestModelSchema_store ext eng opts st req = (st', out)"
    and way: "\<forall>pathObj schema p.
           matchUrlWithSchema_store ext (pathObjects_s st) (originalUrl req) = Inr pathObj
           \<and> request_schema_store ext eng (heap st) pathObj (toLowerCase (method' req))
               = Inr schema
           \<and> s_get (heap st) schema (Name ''properties'') = Inr (SRef p)
           \<longrightarrow> SRef p \<notin> set (s_walk (heap st) pathObj (request_location req))
               \<and> (\<forall>a. s_lookup (heap st) pathObj
                         [Name (toLowerCase (method' req)), Name ''parameters'', Name ''length'']
                       \<noteq> Inr (SRef a))"
  shows "resolveRequestModelSchema_store ext eng opts st' req = (st', out)"
proof -
  let ?m = "toLowerCase (method' req)"
  from resolveRequestModelSchema_store_shape [OF run]
  consider "st' = st"
    | pathObj schema where
      "matchUrlWithSchema_store ext (pathObjects_s st) (originalUrl req) = Inr pathObj"
      "request_schema_store ext eng (heap st) pathObj ?m = Inr schema"
      "finish_resolve_store opts st schema = (st', out)"
    by blast
  then show ?thesis
  proof cases
    case 1
    with run show ?thesis by simp
  next
    case 2
    note m = 2(1) and f = 2(2) and fin = 2(3)
    have reg: "pathObjects_s st' = pathObjects_s st"
      using finish_resolve_store_registry [OF fin] .
    from finish_resolve_store_changes [OF fin]
    consider "st' = st"
      | p where "s_get (heap st) schema (Name ''properties'') = Inr (SRef p)"
        "length (heap st) \<le> length (heap st')"
        "\<forall>a<length (heap st). a \<noteq> p \<longrightarrow> heap st' ! a = heap st ! a"
      by blast
    then show ?thesis
    proof cases
      case 1
      with run show ?thesis by simp
    next
      case (2 p)
      note p = this
      from way m f p(1)
      have q: "SRef p \<notin> set (s_walk (heap st) pathObj (request_location req))
               \<and> (\<forall>a. s_lookup (heap st) pathObj
                         [Name ?m, Name ''parameters'', Name ''length''] \<noteq> Inr (SRef a))" by blast
      from s_get_ref [OF p(1)] obtain s where s: "schema = SRef s" by blast
      have found: "request_schema_store ext eng (heap st) pathObj ?m = Inr (SRef s)"
        using f s by simp
      from request_walk_last [OF found] q
      have nonself: "schema \<noteq> SRef p" by (auto simp: s request_location_def)
      have nonself': "\<forall>p'. s_get (heap st) schema (Name ''properties'') = Inr (SRef p') \<longrightarrow>
                        schema \<noteq> SRef p'"
        using nonself p(1) by auto
      have again: "finish_resolve_store opts st' schema = (st', out)"
        using finish_resolve_store_again [OF fin nonself'] .
      have "request_schema_store ext eng (heap st') pathObj ?m = Inr (SRef s)"
        using request_schema_store_stable [OF p(2,3) found] q by (simp add: request_location_def)
      then show ?thesis
        using m reg again s by (simp add: resolveRequestModelSchema_store_def)
    qed
  qed
qed

lemma response_store_again:
  assumes run: "resolveResponseModelSchema_store ext opts st req sc = (st', out)"
    and way: "\<forall>pathObj schema p.
           matchUrlWithSchema_store ext (pathObjects_s st) (originalUrl req) = Inr pathObj
           \<and> response_schema_store (heap st) pathObj (toLowerCase (method' req)) sc
               = Inr schema
           \<and> s_get (heap st) schema (Name ''properties'') = Inr (SRef p)
           \<longrightarrow> SRef p \<notin> set (s_walk (heap st) pathObj (response_location req sc))"
  shows "resolveResponseModelSchema_store ext opts st' req sc = (st', out)"
proof -
  let ?m = "toLowerCase (method' req)"
  from resolveResponseModelSchema_store_shape [OF run]
  consider "st' = st"
    | pathObj schema where
      "matchUrlWithSchema_store ext (pathObjects_s st) (originalUrl req) = Inr pathObj"
      "response_schema_store (heap st) pathObj ?m sc = Inr schema"
      "finish_resolve_store opts st schema = (st', out)"
    by blast
  then show ?thesis
  proof cases
    case 1
    with run show ?thesis by simp
  next
    case 2
    note m = 2(1) and f = 2(2) and fin = 2(3)
    have reg: "pathObjects_s st' = pathObjects_s st"
      using finish_resolve_store_registry [OF fin] .
    from finish_resolve_store_changes [OF fin]
    consider "st' = st"
      | p where "s_get (heap st) schema (Name ''properties'') = Inr (SRef p)"
        "length (heap st) \<le> length (heap st')"
        "\<forall>a<length (heap st). a \<noteq> p \<longrightarrow> heap st' ! a = heap st ! a"
      by blast
    then show ?thesis
    proof cases
      case 1
      with run show ?thesis by simp
    next
      case (2 p)
      note p = this
      from way m f p(1)
      have q: "SRef p \<notin> set (s_walk (heap st) pathObj (response_location req sc))" by blast
      from s_get_ref [OF p(1)] obtain s where s: "schema = SRef s" by blast
      have found: "response_schema_store (heap st) pathObj ?m sc = Inr (SRef s)"
        using f s by simp
      from response_walk_last [OF found] q
      have nonself: "schema \<noteq> SRef p" by (auto simp: s response_location_def)
      have nonself': "\<forall>p'. s_get (heap st) schema (Name ''properties'') = Inr (SRef p') \<longrightarrow>
                        schema \<noteq> SRef p'"
        using nonself p(1) by auto
      have again: "finish_resolve_store opts st' schema = (st', out)"
        using finish_resolve_store_again [OF fin nonself'] .
      have "response_schema_store (heap st') pathObj ?m sc = Inr (SRef s)"
        using response_schema_store_stable [OF p(2,3) found] q by (simp add: response_location_def)
      then show ?thesis
        using m reg again s by (simp add: resolveResponseModelSchema_store_def)
    qed
  qed
qed

text \<open>The stages reach the store only through the resolvers.\<close>

lemma validateRequest_store_state:
  "fst (validateRequest_store ext eng opts st req res)
     = fst (resolveRequestModelSchema_store ext eng opts st req)"
  by (simp add: validateRequest_store_def split: prod.splits sum.splits option.splits)

lemma check_response_store_state:
  "fst (check_response_store ext eng opts st req res val enc)
     = fst (resolveResponseModelSchema_store ext opts st req (statusCode res))"
  by (simp add: check_response_store_def split: prod.splits sum.splits option.splits)

lemma end_hook_store_state:
  "fst (end_hook_store ext eng opts st req res cap d enc) = st
   \<or> fst (end_hook_store ext eng opts st req res cap d enc)
       = fst (resolveResponseModelSchema_store ext opts st req (statusCode res))"
proof -
  have "fst (check_response_store ext eng opts st req
               (res\<lparr>write_op := origWrite cap, end_op := origEnd cap\<rparr>) v enc)
          = fst (resolveResponseModelSchema_store ext opts st req (statusCode res))" for v
    by (simp add: check_response_store_state)
  then show ?thesis
    by (auto simp: end_hook_store_def split: prod.splits sum.splits) (metis fst_conv)
qed

lemma validate_store_state:
  "fst (validate_store ext eng opts st req res) = st
   \<or> fst (validate_store ext eng opts st req res)
       = fst (resolveRequestModelSchema_store ext eng opts st req)"
  using validateRequest_store_state [of ext eng opts st req res]
  by (auto simp: validate_store_def validateResponse_def
      split: prod.splits option.splits if_splits)

subsection \<open>What resolution and validation change in the contract\<close>

text \<open>
  C9. The statement is about the objects of the store, so it covers a contract that
  holds one schema object at several places. For the request resolver (state \<open>st\<^sub>q\<close>,
  outcome \<open>out\<^sub>q\<close>) and the response resolver (state \<open>st\<^sub>s\<close>, outcome \<open>out\<^sub>s\<close>),
  started in the state \<open>st\<close>:
  \<^item> the path registry is the same afterwards, and no object leaves the store;
  \<^item> with \<open>allowNullable\<close> off the state is the same afterwards;
  \<^item> every object that was in the store, other than the \<open>properties\<close> object of the
    schema that was found, is the same afterwards: the schema object itself, the
    schemas of its properties, and every other part of the contract;
  \<^item> with \<open>allowNullable\<close> on, the schema that was found still holds the same
    \<open>properties\<close> object, with the same keys; a property that is not marked
    \<open>x-nullable\<close> holds the value it held; and, when the resolver returns, a property
    that is marked holds a new object \<open>{oneOf: [original, {type: 'null'}]}\<close> made of
    three new objects, where \<open>original\<close> is the value the property held. The value
    returned is the schema that was found;
  \<^item> a second resolution of the same request in the state the first one left changes
    nothing and has the same outcome, so the rewriting happens the first time only.
    This is for a contract in which the \<open>properties\<close> object is none of the objects
    the resolver passes on its way from the path definition to the schema (the
    schema included) and the \<open>length\<close> of \<open>parameters\<close> is not an object;
  \<^item> so does a later resolution, by the other resolver and for any request, that
    finds the same schema object, at whatever place of the contract;
  \<^item> \<open>validateRequest\<close>, the \<open>end\<close> interceptor and \<open>validate\<close> leave the state
    as it was or as the resolver they call leaves it.
\<close>

theorem resolution_frame:
  assumes "resolveRequestModelSchema_store ext eng opts st req = (st\<^sub>q, out\<^sub>q)"
    and "resolveResponseModelSchema_store ext opts st req sc = (st\<^sub>s, out\<^sub>s)"
  shows "pathObjects_s st\<^sub>q = pathObjects_s st \<and> pathObjects_s st\<^sub>s = pathObjects_s st
     \<and> length (heap st) \<le> length (heap st\<^sub>q) \<and> length (heap st) \<le> length (heap st\<^sub>s)
     \<and> (\<not> allowNullable opts \<longrightarrow> st\<^sub>q = st \<and> st\<^sub>s = st)
     \<and> (a < length (heap st)
         \<and> (\<forall>pathObj schema.
               matchUrlWithSchema_store ext (pathObjects_s st) (originalUrl req) = Inr pathObj
               \<and> request_schema_store ext eng (heap st) pathObj (toLowerCase (method' req))
                   = Inr schema
               \<longrightarrow> s_get (heap st) schema (Name ''properties'') \<noteq> Inr (SRef a))
         \<longrightarrow> heap st\<^sub>q ! a = heap st ! a)
     \<and> (a < length (heap st)
         \<and> (\<forall>pathObj schema.
               matchUrlWithSchema_store ext (pathObjects_s st) (originalUrl req) = Inr pathObj
               \<and> response_schema_store (heap st) pathObj (toLowerCase (method' req)) sc
                   = Inr schema
               \<longrightarrow> s_get (heap st) schema (Name ''properties'') \<noteq> Inr (SRef a))
         \<longrightarrow> heap st\<^sub>s ! a = heap st ! a)
     \<and> (matchUrlWithSchema_store ext (pathObjects_s st) (originalUrl req) = Inr pathObj
         \<and> request_schema_store ext eng (heap st) pathObj (toLowerCase (method' req))
             = Inr schema
         \<longrightarrow> (out\<^sub>q = Inr schema \<or> out\<^sub>q = Inl TypeError)
           \<and> (allowNullable opts
               \<and> s_get (heap st) schema (Name ''properties'') = Inr (SRef p)
               \<and> schema \<noteq> SRef p \<and> x \<in> set (s_keys (heap st) (SRef p))
               \<longrightarrow> s_get (heap st\<^sub>q) schema (Name ''properties'') = Inr (SRef p)
                 \<and> s_keys (heap st\<^sub>q) (SRef p) = s_keys (heap st) (SRef p)
                 \<and> (\<not> marked_nullable (heap st) (cell_get (heap st ! p) x) \<longrightarrow>
                      cell_get (heap st\<^sub>q ! p) x = cell_get (heap st ! p) x)
                 \<and> (marked_nullable (heap st) (cell_get (heap st ! p) x)
                      \<and> out\<^sub>q = Inr schema \<longrightarrow>
                      (\<exists>n. length (heap st) \<le> n \<and> n + 2 < length (heap st\<^sub>q)
                         \<and> cell_get (heap st\<^sub>q ! p) x = SRef (n + 2)
                         \<and> heap st\<^sub>q ! n = CObj [(Name ''type'', SStr ''null'')]
                         \<and> heap st\<^sub>q ! (n + 1) = CArr [cell_get (heap st ! p) x, SRef n]
                         \<and> heap st\<^sub>q ! (n + 2) = CObj [(Name ''oneOf'', SRef (n + 1))]))))
     \<and> (matchUrlWithSchema_store ext (pathObjects_s st) (originalUrl req) = Inr pathObj
         \<and> response_schema_store (heap st) pathObj (toLowerCase (method' req)) sc
             = Inr schema
         \<longrightarrow> (out\<^sub>s = Inr schema \<or> out\<^sub>s = Inl TypeError)
           \<and> (allowNullable opts
               \<and> s_get (heap st) schema (Name ''properties'') = Inr (SRef p)
               \<and> schema \<noteq> SRef p \<and> x \<in> set (s_keys (heap st) (SRef p))
               \<longrightarrow> s_get (heap st\<^sub>s) schema (Name ''properties'') = Inr (SRef p)
                 \<and> s_keys (heap st\<^sub>s) (SRef p) = s_keys (heap st) (SRef p)
                 \<and> (\<not> marked_nullable (heap st) (cell_get (heap st ! p) x) \<longrightarrow>
                      cell_get (heap st\<^sub>s ! p) x = cell_get (heap st ! p) x)
                 \<and> (marked_nullable (heap st) (cell_get (heap st ! p) x)
                      \<and> out\<^sub>s = Inr schema \<longrightarrow>
                      (\<exists>n. length (heap st) \<le> n \<and> n + 2 < length (heap st\<^sub>s)
                         \<and> cell_get (heap st\<^sub>s ! p) x = SRef (n + 2)
                         \<and> heap st\<^sub>s ! n = CObj [(Name ''type'', SStr ''null'')]
                         \<and> heap st\<^sub>s ! (n + 1) = CArr [cell_get (heap st ! p) x, SRef n]
                         \<and> heap st\<^sub>s ! (n + 2) = CObj [(Name ''oneOf'', SRef (n + 1))]))))
     \<and> ((\<forall>pathObj schema p.
            matchUrlWithSchema_store ext (pathObjects_s st) (originalUrl req) = Inr pathObj
            \<and> request_schema_store ext eng (heap st) pathObj (toLowerCase (method' req))
                = Inr schema
            \<and> s_get (heap st) schema (Name ''properties'') = Inr (SRef p)
            \<longrightarrow> SRef p \<notin> set (s_walk (heap st) pathObj (request_location req))
              \<and> (\<forall>a. s_lookup (heap st) pathObj
                        [Name (toLowerCase (method' req)), Name ''parameters'', Name ''length'']
                      \<noteq> Inr (SRef a)))
         \<longrightarrow> resolveRequestModelSchema_store ext eng opts st\<^sub>q req = (st\<^sub>q, out\<^sub>q))
     \<and> ((\<forall>pathObj schema p.
            matchUrlWithSchema_store ext (pathObjects_s st) (originalUrl req) = Inr pathObj
            \<and> response_schema_store (heap st) pathObj (toLowerCase (method' req)) sc
                = Inr schema
            \<and> s_get (heap st) schema (Name ''properties'') = Inr (SRef p)
            \<longrightarrow> SRef p \<notin> set (s_walk (heap st) pathObj (response_location req sc)))
         \<longrightarrow> resolveResponseModelSchema_store ext opts st\<^sub>s req sc = (st\<^sub>s, out\<^sub>s))
     \<and> fst (validateRequest_store ext eng opts st req res) = st\<^sub>q
     \<and> (statusCode res = sc \<longrightarrow>
          fst (end_hook_store ext eng opts st req res cap d enc) = st
          \<or> fst (end_hook_store ext eng opts st req res cap d enc) = st\<^sub>s)
     \<and> (fst (validate_store ext eng opts st req res) = st
          \<or> fst (validate_store ext eng opts st req res) = st\<^sub>q)
     \<and> (matchUrlWithSchema_store ext (pathObjects_s st) (originalUrl req) = Inr pathObj
         \<and> request_schema_store ext eng (heap st) pathObj (toLowerCase (method' req))
             = Inr schema
         \<and> (\<forall>p. s_get (heap st) schema (Name ''properties'') = Inr (SRef p) \<longrightarrow>
                  schema \<noteq> SRef p)
         \<and> matchUrlWithSchema_store ext (pathObjects_s st\<^sub>q) (originalUrl req') = Inr pathObj'
         \<and> response_schema_store (heap st\<^sub>q) pathObj' (toLowerCase (method' req')) sc'
             = Inr schema
         \<longrightarrow> resolveResponseModelSchema_store ext opts st\<^sub>q req' sc' = (st\<^sub>q, out\<^sub>q))
     \<and> (matchUrlWithSchema_store ext (pathObjects_s st) (originalUrl req) = Inr pathObj
         \<and> response_schema_store (heap st) pathObj (toLowerCase (method' req)) sc
             = Inr schema
         \<and> (\<forall>p. s_get (heap st) schema (Name ''properties'') = Inr (SRef p) \<longrightarrow>
                  schema \<noteq> SRef p)
         \<and> matchUrlWithSchema_store ext (pathObjects_s st\<^sub>s) (originalUrl req') = Inr pathObj'
         \<and> request_schema_store ext eng (heap st\<^sub>s) pathObj' (toLowerCase (method' req'))
             = Inr schema
         \<longrightarrow> resolveRequestModelSchema_store ext eng opts st\<^sub>s req' = (st\<^sub>s, out\<^sub>s))"
proof -
  note q = assms(1) and s = assms(2)
  have 1: "pathObjects_s st\<^sub>q = pathObjects_s st" using request_store_registry [OF q] .
  have 2: "pathObjects_s st\<^sub>s = pathObjects_s st" using response_store_registry [OF s] .
  have 3: "length (heap st) \<le> length (heap st\<^sub>q)" using request_store_length [OF q] .
  have 4: "length (heap st) \<le> length (heap st\<^sub>s)" using response_store_length [OF s] .
  have 5: "\<not> allowNullable opts \<longrightarrow> st\<^sub>q = st \<and> st\<^sub>s = st"
    using request_store_off [OF q] response_store_off [OF s] by blast
  have 6: "a < length (heap st)
         \<and> (\<forall>pathObj schema.
               matchUrlWithSchema_store ext (pathObjects_s st) (originalUrl req) = Inr pathObj
               \<and> request_schema_store ext eng (heap st) pathObj (toLowerCase (method' req))
                   = Inr schema
               \<longrightarrow> s_get (heap st) schema (Name ''properties'') \<noteq> Inr (SRef a))
         \<longrightarrow> heap st\<^sub>q ! a = heap st ! a"
    using request_store_frame [OF q, of a] by blast
  have 7: "a < length (heap st)
         \<and> (\<forall>pathObj schema.
               matchUrlWithSchema_store ext (pathObjects_s st) (originalUrl req) = Inr pathObj
               \<and> response_schema_store (heap st) pathObj (toLowerCase (method' req)) sc
                   = Inr schema
               \<longrightarrow> s_get (heap st) schema (Name ''properties'') \<noteq> Inr (SRef a))
         \<longrightarrow> heap st\<^sub>s ! a = heap st ! a"
    using response_store_frame [OF s, of a] by blast
  have 8: "matchUrlWithSchema_store ext (pathObjects_s st) (originalUrl req) = Inr pathObj
         \<and> request_schema_store ext eng (heap st) pathObj (toLowerCase (method' req))
             = Inr schema
         \<longrightarrow> (out\<^sub>q = Inr schema \<or> out\<^sub>q = Inl TypeError)
           \<and> (allowNullable opts
               \<and> s_get (heap st) schema (Name ''properties'') = Inr (SRef p)
               \<and> schema \<noteq> SRef p \<and> x \<in> set (s_keys (heap st) (SRef p))
               \<longrightarrow> s_get (heap st\<^sub>q) schema (Name ''properties'') = Inr (SRef p)
                 \<and> s_keys (heap st\<^sub>q) (SRef p) = s_keys (heap st) (SRef p)
                 \<and> (\<not> marked_nullable (heap st) (cell_get (heap st ! p) x) \<longrightarrow>
                      cell_get (heap st\<^sub>q ! p) x = cell_get (heap st ! p) x)
                 \<and> (marked_nullable (heap st) (cell_get (heap st ! p) x)
                      \<and> out\<^sub>q = Inr schema \<longrightarrow>
                      (\<exists>n. length (heap st) \<le> n \<and> n + 2 < length (heap st\<^sub>q)
                         \<and> cell_get (heap st\<^sub>q ! p) x = SRef (n + 2)
                         \<and> heap st\<^sub>q ! n = CObj [(Name ''type'', SStr ''null'')]
                         \<and> heap st\<^sub>q ! (n + 1) = CArr [cell_get (heap st ! p) x, SRef n]
                         \<and> heap st\<^sub>q ! (n + 2) = CObj [(Name ''oneOf'', SRef (n + 1))])))"
  proof (intro impI, elim conjE)
    assume m: "matchUrlWithSchema_store ext (pathObjects_s st) (originalUrl req) = Inr pathObj"
      and f: "request_schema_store ext eng (heap st) pathObj (toLowerCase (method' req))
                = Inr schema"
    note fin = request_store_finish [OF q m f]
    from finish_resolve_store_out [OF fin] finish_resolve_store_effect [OF fin]
    show "(out\<^sub>q = Inr schema \<or> out\<^sub>q = Inl TypeError)
           \<and> (allowNullable opts
               \<and> s_get (heap st) schema (Name ''properties'') = Inr (SRef p)
               \<and> schema \<noteq> SRef p \<and> x \<in> set (s_keys (heap st) (SRef p))
               \<longrightarrow> s_get (heap st\<^sub>q) schema (Name ''properties'') = Inr (SRef p)
                 \<and> s_keys (heap st\<^sub>q) (SRef p) = s_keys (heap st) (SRef p)
                 \<and> (\<not> marked_nullable (heap st) (cell_get (heap st ! p) x) \<longrightarrow>
                      cell_get (heap st\<^sub>q ! p) x = cell_get (heap st ! p) x)
                 \<and> (marked_nullable (heap st) (cell_get (heap st ! p) x)
                      \<and> out\<^sub>q = Inr schema \<longrightarrow>
                      (\<exists>n. length (heap st) \<le> n \<and> n + 2 < length (heap st\<^sub>q)
                         \<and> cell_get (heap st\<^sub>q ! p) x = SRef (n + 2)
                         \<and> heap st\<^sub>q ! n = CObj [(Name ''type'', SStr ''null'')]
                         \<and> heap st\<^sub>q ! (n + 1) = CArr [cell_get (heap st ! p) x, SRef n]
                         \<and> heap st\<^sub>q ! (n + 2) = CObj [(Name ''oneOf'', SRef (n + 1))])))"
      by blast
  qed
  have 9: "matchUrlWithSchema_store ext (pathObjects_s st) (originalUrl req) = Inr pathObj
         \<and> response_schema_store (heap st) pathObj (toLowerCase (method' req)) sc
             = Inr schema
         \<longrightarrow> (out\<^sub>s = Inr schema \<or> out\<^sub>s = Inl TypeError)
           \<and> (allowNullable opts
               \<and> s_get (heap st) schema (Name ''properties'') = Inr (SRef p)
               \<and> schema \<noteq> SRef p \<and> x \<in> set (s_keys (heap st) (SRef p))
               \<longrightarrow> s_get (heap st\<^sub>s) schema (Name ''properties'') = Inr (SRef p)
                 \<and> s_keys (heap st\<^sub>s) (SRef p) = s_keys (heap st) (SRef p)
                 \<and> (\<not> marked_nullable (heap st) (cell_get (heap st ! p) x) \<longrightarrow>
                      cell_get (heap st\<^sub>s ! p) x = cell_get (heap st ! p) x)
                 \<and> (marked_nullable (heap st) (cell_get (heap st ! p) x)
                      \<and> out\<^sub>s = Inr schema \<longrightarrow>
                      (\<exists>n. length (heap st) \<le> n \<and> n + 2 < length (heap st\<^sub>s)
                         \<and> cell_get (heap st\<^sub>s ! p) x = SRef (n + 2)
                         \<and> heap st\<^sub>s ! n = CObj [(Name ''type'', SStr ''null'')]
                         \<and> heap st\<^sub>s ! (n + 1) = CArr [cell_get (heap st ! p) x, SRef n]
                         \<and> heap st\<^sub>s ! (n + 2) = CObj [(Name ''oneOf'', SRef (n + 1))])))"
  proof (intro impI, elim conjE)
    assume m: "matchUrlWithSchema_store ext (pathObjects_s st) (originalUrl req) = Inr pathObj"
      and f: "response_schema_store (heap st) pathObj (toLowerCase (method' req)) sc
                = Inr schema"
    note fin = response_store_finish [OF s m f]
    from finish_resolve_store_out [OF fin] finish_resolve_store_effect [OF fin]
    show "(out\<^sub>s = Inr schema \<or> out\<^sub>s = Inl TypeError)
           \<and> (allowNullable opts
               \<and> s_get (heap st) schema (Name ''properties'') = Inr (SRef p)
               \<and> schema \<noteq> SRef p \<and> x \<in> set (s_keys (heap st) (SRef p))
               \<longrightarrow> s_get (heap st\<^sub>s) schema (Name ''properties'') = Inr (SRef p)
                 \<and> s_keys (heap st\<^sub>s) (SRef p) = s_keys (heap st) (SRef p)
                 \<and> (\<not> marked_nullable (heap st) (cell_get (heap st ! p) x) \<longrightarrow>
                      cell_get (heap st\<^sub>s ! p) x = cell_get (heap st ! p) x)
                 \<and> (marked_nullable (heap st) (cell_get (heap st ! p) x)
                      \<and> out\<^sub>s = Inr schema \<longrightarrow>
                      (\<exists>n. length (heap st) \<le> n \<and> n + 2 < length (heap st\<^sub>s)
                         \<and> cell_get (heap st\<^sub>s ! p) x = SRef (n + 2)
                         \<and> heap st\<^sub>s ! n = CObj [(Name ''type'', SStr ''null'')]
                         \<and> heap st\<^sub>s ! (n + 1) = CArr [cell_get (heap st ! p) x, SRef n]
                         \<and> heap st\<^sub>s ! (n + 2) = CObj [(Name ''oneOf'', SRef (n + 1))])))"
      by blast
  qed
  have 10: "(\<forall>pathObj schema p.
            matchUrlWithSchema_store ext (pathObjects_s st) (originalUrl req) = Inr pathObj
            \<and> request_schema_store ext eng (heap st) pathObj (toLowerCase (method' req))
                = Inr schema
            \<and> s_get (heap st) schema (Name ''properties'') = Inr (SRef p)
            \<longrightarrow> SRef p \<notin> set (s_walk (heap st) pathObj (request_location req))
              \<and> (\<forall>a. s_lookup (heap st) pathObj
                        [Name (toLowerCase (method' req)), Name ''parameters'', Name ''length'']
                      \<noteq> Inr (SRef a)))
         \<longrightarrow> resolveRequestModelSchema_store ext eng opts st\<^sub>q req = (st\<^sub>q, out\<^sub>q)"
    using request_store_again [OF q] by blast
  have 11: "(\<forall>pathObj schema p.
            matchUrlWithSchema_store ext (pathObjects_s st) (originalUrl req) = Inr pathObj
            \<and> response_schema_store (heap st) pathObj (toLowerCase (method' req)) sc
                = Inr schema
            \<and> s_get (heap st) schema (Name ''properties'') = Inr (SRef p)
            \<longrightarrow> SRef p \<notin> set (s_walk (heap st) pathObj (response_location req sc)))
         \<longrightarrow> resolveResponseModelSchema_store ext opts st\<^sub>s req sc = (st\<^sub>s, out\<^sub>s)"
    using response_store_again [OF s] by blast
  have 12: "fst (validateRequest_store ext eng opts st req res) = st\<^sub>q"
    using validateRequest_store_state [of ext eng opts st req res] q by simp
  have 13: "statusCode res = sc \<longrightarrow>
          fst (end_hook_store ext eng opts st req res cap d enc) = st
          \<or> fst (end_hook_store ext eng opts st req res cap d enc) = st\<^sub>s"
    using end_hook_store_state [of ext eng opts st req res cap d enc] s by auto
  have 14: "fst (validate_store ext eng opts st req res) = st
          \<or> fst (validate_store ext eng opts st req res) = st\<^sub>q"
    using validate_store_state [of ext eng opts st req res] q by simp
  have 15: "matchUrlWithSchema_store ext (pathObjects_s st) (originalUrl req) = Inr pathObj
         \<and> request_schema_store ext eng (heap st) pathObj (toLowerCase (method' req))
             = Inr schema
         \<and> (\<forall>p. s_get (heap st) schema (Name ''properties'') = Inr (SRef p) \<longrightarrow>
                  schema \<noteq> SRef p)
         \<and> matchUrlWithSchema_store ext (pathObjects_s st\<^sub>q) (originalUrl req') = Inr pathObj'
         \<and> response_schema_store (heap st\<^sub>q) pathObj' (toLowerCase (method' req')) sc'
             = Inr schema
         \<longrightarrow> resolveResponseModelSchema_store ext opts st\<^sub>q req' sc' = (st\<^sub>q, out\<^sub>q)"
  proof (intro impI, elim conjE)
    assume m: "matchUrlWithSchema_store ext (pathObjects_s st) (originalUrl req) = Inr pathObj"
      and f: "request_schema_store ext eng (heap st) pathObj (toLowerCase (method' req))
                = Inr schema"
      and n: "\<forall>p. s_get (heap st) schema (Name ''properties'') = Inr (SRef p) \<longrightarrow>
                  schema \<noteq> SRef p"
      and m': "matchUrlWithSchema_store ext (pathObjects_s st\<^sub>q) (originalUrl req') = Inr pathObj'"
      and f': "response_schema_store (heap st\<^sub>q) pathObj' (toLowerCase (method' req')) sc'
                = Inr schema"
    from finish_resolve_store_again [OF request_store_finish [OF q m f] n] m' f'
    show "resolveResponseModelSchema_store ext opts st\<^sub>q req' sc' = (st\<^sub>q, out\<^sub>q)"
      by (simp add: resolveResponseModelSchema_store_def)
  qed
  have 16: "matchUrlWithSchema_store ext (pathObjects_s st) (originalUrl req) = Inr pathObj
         \<and> response_schema_store (heap st) pathObj (toLowerCase (method' req)) sc
             = Inr schema
         \<and> (\<forall>p. s_get (heap st) schema (Name ''properties'') = Inr (SRef p) \<longrightarrow>
                  schema \<noteq> SRef p)
         \<and> matchUrlWithSchema_store ext (pathObjects_s st\<^sub>s) (originalUrl req') = Inr pathObj'
         \<and> request_schema_store ext eng (heap st\<^sub>s) pathObj' (toLowerCase (method' req'))
             = Inr schema
         \<longrightarrow> resolveRequestModelSchema_store ext eng opts st\<^sub>s req' = (st\<^sub>s, out\<^sub>s)"
  proof (intro impI, elim conjE)
    assume m: "matchUrlWithSchema_store ext (pathObjects_s st) (originalUrl req) = Inr pathObj"
      and f: "response_schema_store (heap st) pathObj (toLowerCase (method' req)) sc
                = Inr schema"
      and n: "\<forall>p. s_get (heap st) schema (Name ''properties'') = Inr (SRef p) \<longrightarrow>
                  schema \<noteq> SRef p"
      and m': "matchUrlWithSchema_store ext (pathObjects_s st\<^sub>s) (originalUrl req') = Inr pathObj'"
      and f': "request_schema_store ext eng (heap st\<^sub>s) pathObj' (toLowerCase (method' req'))
                = Inr schema"
    from finish_resolve_store_again [OF response_store_finish [OF s m f] n] m' f'
    show "resolveRequestModelSchema_store ext eng opts st\<^sub>s req' = (st\<^sub>s, out\<^sub>s)"
      by (simp add: resolveRequestModelSchema_store_def)
  qed
  show ?thesis
    by (intro conjI) (rule 1 2 3 4 5 6 7 8 9 10 11 12 13 14 15 16)+
qed

lemma value_of_ref:
  "0 < n \<Longrightarrow>
   value_of n h (SRef a) =
     (if a < length h then
        (case h ! a of
           CObj ps \<Rightarrow> JObj (map (\<lambda>entry. (fst entry, value_of (n - 1) h (snd entry))) ps)
         | CArr xs \<Rightarrow> JArr (map (value_of (n - 1) h) xs))
      else JUndefined)"
  by (cases n) (simp_all split: cell.splits)

lemmas store_simps =
  resolveRequestModelSchema_store_def resolveResponseModelSchema_store_def
  matchUrlWithSchema_store_def request_schema_store_def response_schema_store_def
  finish_resolve_store_def decorateWithNullable_store_def decorate_prop_def new_choice_def
  sample_state_def sample_heap_def sample_engine_def status_or_200_def

theorem resolution_frame_witness:
  "resolveRequestModelSchema_store sample_ext sample_engine sample_options sample_state
     put_request =
     (sample_state\<lparr>heap :=
        sample_heap[1 := CObj [(Name ''name'', SRef 13), (Name ''size'', SRef 3)]]
          @ [CObj [(Name ''type'', SStr ''null'')], CArr [SRef 2, SRef 11],
             CObj [(Name ''oneOf'', SRef 12)]]\<rparr>,
      Inr (SRef 0))
   \<and> resolveResponseModelSchema_store sample_ext sample_options sample_state get_request
       (Some 200) =
     (sample_state\<lparr>heap :=
        sample_heap[1 := CObj [(Name ''name'', SRef 13), (Name ''size'', SRef 3)]]
          @ [CObj [(Name ''type'', SStr ''null'')], CArr [SRef 2, SRef 11],
             CObj [(Name ''oneOf'', SRef 12)]]\<rparr>,
      Inr (SRef 0))
   \<and> s_lookup sample_heap (SRef 4)
        (response_location get_request (Some 200) @ [Name ''properties'', Name ''name''])
       = Inr (SRef 2)
   \<and> s_lookup
        (heap (fst (resolveRequestModelSchema_store sample_ext sample_engine sample_options
                      sample_state put_request)))
        (SRef 4)
        (response_location get_request (Some 200) @ [Name ''properties'', Name ''name''])
       = Inr (SRef 13)
   \<and> value_of 6
        (heap (fst (resolveRequestModelSchema_store sample_ext sample_engine sample_options
                      sample_state put_request)))
        (SRef 0)
       = fst (decorateWithNullable item_schema)
   \<and> pathObjects_s
        (fst (resolveRequestModelSchema_store sample_ext sample_engine sample_options
                sample_state put_request))
       = pathObjects_s sample_state
   \<and> pathObjects_s
        (fst (resolveResponseModelSchema_store sample_ext sample_options sample_state
                get_request (Some 200)))
       = pathObjects_s sample_state
   \<and> fst (resolveRequestModelSchema_store sample_ext sample_engine
             (sample_options\<lparr>allowNullable := False\<rparr>) sample_state put_request)
       = sample_state
   \<and> fst (resolveResponseModelSchema_store sample_ext
             (sample_options\<lparr>allowNullable := False\<rparr>) sample_state get_request (Some 200))
       = sample_state
   \<and> heap (fst (resolveRequestModelSchema_store sample_ext sample_engine sample_options
                  sample_state put_request)) ! 0
       = sample_heap ! 0
   \<and> heap (fst (resolveRequestModelSchema_store sample_ext sample_engine sample_options
                  sample_state put_request)) ! 2
       = sample_heap ! 2
   \<and> heap (fst (resolveResponseModelSchema_store sample_ext sample_options sample_state
                  get_request (Some 200))) ! 2
       = sample_heap ! 2
   \<and> marked_nullable sample_heap (cell_get (sample_heap ! 1) (Name ''name''))
   \<and> \<not> marked_nullable sample_heap (cell_get (sample_heap ! 1) (Name ''size''))
   \<and> (\<exists>n. length (heap sample_state) \<le> n
          \<and> n + 2 < length (heap (fst (resolveRequestModelSchema_store sample_ext sample_engine
                                          sample_options sample_state put_request)))
          \<and> cell_get
               (heap (fst (resolveRequestModelSchema_store sample_ext sample_engine
                             sample_options sample_state put_request)) ! 1)
               (Name ''name'')
              = SRef (n + 2)
          \<and> heap (fst (resolveRequestModelSchema_store sample_ext sample_engine sample_options
                         sample_state put_request)) ! n
              = CObj [(Name ''type'', SStr ''null'')]
          \<and> heap (fst (resolveRequestModelSchema_store sample_ext sample_engine sample_options
                         sample_state put_request)) ! (n + 1)
              = CArr [cell_get (heap sample_state ! 1) (Name ''name''), SRef n]
          \<and> heap (fst (resolveRequestModelSchema_store sample_ext sample_engine sample_options
                         sample_state put_request)) ! (n + 2)
              = CObj [(Name ''oneOf'', SRef (n + 1))])
   \<and> cell_get
        (heap (fst (resolveRequestModelSchema_store sample_ext sample_engine sample_options
                      sample_state put_request)) ! 1)
        (Name ''size'')
       = SRef 3
   \<and> cell_get
        (heap (fst (resolveResponseModelSchema_store sample_ext sample_options sample_state
                      get_request (Some 200))) ! 1)
        (Name ''size'')
       = SRef 3
   \<and> s_keys
        (heap (fst (resolveResponseModelSchema_store sample_ext sample_options sample_state
                      get_request (Some 200))))
        (SRef 1)
       = [Name ''name'', Name ''size'']
   \<and> SRef 1 \<notin> set (s_walk sample_heap (SRef 4) (request_location put_request))
   \<and> SRef 1 \<notin> set (s_walk sample_heap (SRef 4) (response_location get_request (Some 200)))
   \<and> resolveRequestModelSchema_store sample_ext sample_engine sample_options
        (fst (resolveRequestModelSchema_store sample_ext sample_engine sample_options
                sample_state put_request))
        put_request
       = resolveRequestModelSchema_store sample_ext sample_engine sample_options sample_state
           put_request
   \<and> resolveResponseModelSchema_store sample_ext sample_options
        (fst (resolveResponseModelSchema_store sample_ext sample_options sample_state
                get_request (Some 200)))
        get_request (Some 200)
       = resolveResponseModelSchema_store sample_ext sample_options sample_state get_request
           (Some 200)
   \<and> resolveResponseModelSchema_store sample_ext sample_options
        (fst (resolveRequestModelSchema_store sample_ext sample_engine sample_options
                sample_state put_request))
        get_request (Some 200)
       = (fst (resolveRequestModelSchema_store sample_ext sample_engine sample_options
                 sample_state put_request),
          Inr (SRef 0))
   \<and> fst (validateRequest_store sample_ext sample_engine sample_options sample_state
             put_request sample_response)
       = fst (resolveRequestModelSchema_store sample_ext sample_engine sample_options
                sample_state put_request)
   \<and> snd (validateRequest_store sample_ext sample_engine sample_options sample_state
             put_request sample_response)
       = (sample_response\<lparr>statusCode := Some 400\<rparr>,
          [Status 400,
           Json (JObj [(Name ''message'',
                  JStr ''Response schema validation failed for PUT/items/7?verbose=1'')])],
          None)
   \<and> fst (end_hook_store sample_ext sample_engine sample_options sample_state get_request
             hooked_response sample_capture (Buffer ''2'') None)
       = fst (resolveResponseModelSchema_store sample_ext sample_options sample_state
                get_request (Some 200))"
proof -
  let ?D = "sample_heap[1 := CObj [(Name ''name'', SRef 13), (Name ''size'', SRef 3)]]
          @ [CObj [(Name ''type'', SStr ''null'')], CArr [SRef 2, SRef 11],
             CObj [(Name ''oneOf'', SRef 12)]]"
  let ?st = "sample_state\<lparr>heap := ?D\<rparr>"
  let ?off = "sample_options\<lparr>allowNullable := False\<rparr>"
  let ?rq = "resolveRequestModelSchema_store sample_ext sample_engine sample_options
               sample_state put_request"
  let ?rs = "resolveResponseModelSchema_store sample_ext sample_options sample_state
               get_request (Some 200)"
  have q: "?rq = (?st, Inr (SRef 0))"
    by (simp add: store_simps sample_simps request_simps)
  have s: "?rs = (?st, Inr (SRef 0))"
    by (simp add: store_simps sample_simps request_simps)
  have qs: "resolveResponseModelSchema_store sample_ext sample_options sample_state
              put_request (Some 200) = (sample_state, Inl TypeError)"
    by (simp add: store_simps sample_simps request_simps)
  have sq: "resolveRequestModelSchema_store sample_ext sample_engine sample_options
              sample_state get_request = (sample_state, Inr SNull)"
    by (simp add: store_simps sample_simps request_simps)
  have qo: "resolveRequestModelSchema_store sample_ext sample_engine ?off sample_state
              put_request = (sample_state, Inr (SRef 0))"
    by (simp add: store_simps sample_simps request_simps)
  have so: "resolveResponseModelSchema_store sample_ext ?off sample_state get_request
              (Some 200) = (sample_state, Inr (SRef 0))"
    by (simp add: store_simps sample_simps request_simps)
  have qso: "resolveResponseModelSchema_store sample_ext ?off sample_state put_request
              (Some 200) = (sample_state, Inl TypeError)"
    by (simp add: store_simps sample_simps request_simps)
  have sqo: "resolveRequestModelSchema_store sample_ext sample_engine ?off sample_state
              get_request = (sample_state, Inr SNull)"
    by (simp add: store_simps sample_simps request_simps)
  have h: "heap sample_state = sample_heap" by (simp add: sample_state_def)
  have mq: "matchUrlWithSchema_store sample_ext (pathObjects_s sample_state)
              (originalUrl put_request) = Inr (SRef 4)"
    by (simp add: store_simps sample_simps request_simps)
  have ms: "matchUrlWithSchema_store sample_ext (pathObjects_s sample_state)
              (originalUrl get_request) = Inr (SRef 4)"
    by (simp add: store_simps sample_simps request_simps)
  have fq: "request_schema_store sample_ext sample_engine (heap sample_state) (SRef 4)
              (toLowerCase (method' put_request)) = Inr (SRef 0)"
    by (simp add: store_simps sample_simps request_simps)
  have fs: "response_schema_store (heap sample_state) (SRef 4)
              (toLowerCase (method' get_request)) (Some 200) = Inr (SRef 0)"
    by (simp add: store_simps sample_simps request_simps)
  have pr: "s_get (heap sample_state) (SRef 0) (Name ''properties'') = Inr (SRef 1)"
    by (simp add: store_simps)
  have l: "length (heap sample_state) = 11" by (simp add: store_simps)
  have on: "allowNullable sample_options" by (simp add: sample_options_def)
  have off: "\<not> allowNullable ?off" by simp
  have keys: "s_keys (heap sample_state) (SRef 1) = [Name ''name'', Name ''size'']"
    by (simp add: store_simps)
  have mk: "marked_nullable sample_heap (cell_get (sample_heap ! 1) (Name ''name''))"
    by (simp add: marked_nullable_def sample_heap_def)
  have nm: "\<not> marked_nullable sample_heap (cell_get (sample_heap ! 1) (Name ''size''))"
    by (simp add: marked_nullable_def sample_heap_def)
  have sz: "cell_get (sample_heap ! 1) (Name ''size'') = SRef 3"
    by (simp add: sample_heap_def)
  have wq: "SRef 1 \<notin> set (s_walk sample_heap (SRef 4) (request_location put_request))"
    by (simp add: request_location_def sample_heap_def sample_simps request_simps)
  have ws: "SRef 1 \<notin> set (s_walk sample_heap (SRef 4) (response_location get_request (Some 200)))"
    by (simp add: response_location_def sample_heap_def sample_simps request_simps
        status_or_200_def)
  have lq: "s_lookup sample_heap (SRef 4)
              [Name (toLowerCase (method' put_request)), Name ''parameters'', Name ''length'']
            = Inr (SNum 1)"
    by (simp add: sample_heap_def sample_simps request_simps)
  note A = resolution_frame
             [where a = 2 and pathObj = "SRef 4" and schema = "SRef 0" and p = 1
                and x = "Name ''size''" and res = sample_response, OF q qs]
  note A' = resolution_frame [where a = 0, OF q qs]
  note B = resolution_frame
             [where a = 2 and pathObj = "SRef 4" and schema = "SRef 0" and p = 1
                and x = "Name ''size''", OF sq s]
  note Aoff = resolution_frame [OF qo qso]
  note Boff = resolution_frame [OF sqo so]
  have fq': "\<forall>pathObj schema.
               matchUrlWithSchema_store sample_ext (pathObjects_s sample_state)
                 (originalUrl put_request) = Inr pathObj
               \<and> request_schema_store sample_ext sample_engine (heap sample_state) pathObj
                   (toLowerCase (method' put_request)) = Inr schema
               \<longrightarrow> s_get (heap sample_state) schema (Name ''properties'') \<noteq> Inr (SRef a)"
    if "a \<noteq> 1" for a
  proof (intro allI impI, elim conjE)
    fix pathObj schema
    assume m: "matchUrlWithSchema_store sample_ext (pathObjects_s sample_state)
                 (originalUrl put_request) = Inr pathObj"
      and f: "request_schema_store sample_ext sample_engine (heap sample_state) pathObj
                (toLowerCase (method' put_request)) = Inr schema"
    from m mq have po: "pathObj = SRef 4" by simp
    from f fq po have sc: "schema = SRef 0" by simp
    show "s_get (heap sample_state) schema (Name ''properties'') \<noteq> Inr (SRef a)"
      unfolding sc pr using that by simp
  qed
  have fs': "\<forall>pathObj schema.
               matchUrlWithSchema_store sample_ext (pathObjects_s sample_state)
                 (originalUrl get_request) = Inr pathObj
               \<and> response_schema_store (heap sample_state) pathObj
                   (toLowerCase (method' get_request)) (Some 200) = Inr schema
               \<longrightarrow> s_get (heap sample_state) schema (Name ''properties'') \<noteq> Inr (SRef a)"
    if "a \<noteq> 1" for a
  proof (intro allI impI, elim conjE)
    fix pathObj schema
    assume m: "matchUrlWithSchema_store sample_ext (pathObjects_s sample_state)
                 (originalUrl get_request) = Inr pathObj"
      and f: "response_schema_store (heap sample_state) pathObj
                (toLowerCase (method' get_request)) (Some 200) = Inr schema"
    from m ms have po: "pathObj = SRef 4" by simp
    from f fs po have sc: "schema = SRef 0" by simp
    show "s_get (heap sample_state) schema (Name ''properties'') \<noteq> Inr (SRef a)"
      unfolding sc pr using that by simp
  qed
  have x1: "s_lookup sample_heap (SRef 4)
        (response_location get_request (Some 200) @ [Name ''properties'', Name ''name''])
       = Inr (SRef 2)"
    by (simp add: response_location_def sample_heap_def sample_simps request_simps
        status_or_200_def)
  have x2: "s_lookup (heap (fst ?rq)) (SRef 4)
        (response_location get_request (Some 200) @ [Name ''properties'', Name ''name''])
       = Inr (SRef 13)"
    unfolding q
    by (simp add: response_location_def sample_heap_def sample_simps request_simps
        status_or_200_def)
  have x3': "value_of 6 ?D (SRef 0) = fst (decorateWithNullable item_schema)"
    by (simp add: sample_heap_def decorateWithNullable_def item_schema_def nullable_choice_def
        value_of_ref)
  have x3: "value_of 6 (heap (fst ?rq)) (SRef 0) = fst (decorateWithNullable item_schema)"
    unfolding q using x3' by simp
  note A1 = A [THEN conjunct1]
  note A5 = Aoff [THEN conjunct2, THEN conjunct2, THEN conjunct2, THEN conjunct2, THEN conjunct1]
  note A6 = A [THEN conjunct2, THEN conjunct2, THEN conjunct2, THEN conjunct2, THEN conjunct2,
               THEN conjunct1]
  note A6' = A' [THEN conjunct2, THEN conjunct2, THEN conjunct2, THEN conjunct2, THEN conjunct2,
                 THEN conjunct1]
  note A8 = A [THEN conjunct2, THEN conjunct2, THEN conjunct2, THEN conjunct2, THEN conjunct2,
               THEN conjunct2, THEN conjunct2, THEN conjunct1]
  note A10 = A [THEN conjunct2, THEN conjunct2, THEN conjunct2, THEN conjunct2, THEN conjunct2,
                THEN conjunct2, THEN conjunct2, THEN conjunct2, THEN conjunct2, THEN conjunct1]
  note A12 = A [THEN conjunct2, THEN conjunct2, THEN conjunct2, THEN conjunct2, THEN conjunct2,
                THEN conjunct2, THEN conjunct2, THEN conjunct2, THEN conjunct2, THEN conjunct2,
                THEN conjunct2, THEN conjunct1]
  note B2 = B [THEN conjunct2, THEN conjunct1]
  note B5 = Boff [THEN conjunct2, THEN conjunct2, THEN conjunct2, THEN conjunct2, THEN conjunct1]
  note B7 = B [THEN conjunct2, THEN conjunct2, THEN conjunct2, THEN conjunct2, THEN conjunct2,
               THEN conjunct2, THEN conjunct1]
  note B9 = B [THEN conjunct2, THEN conjunct2, THEN conjunct2, THEN conjunct2, THEN conjunct2,
               THEN conjunct2, THEN conjunct2, THEN conjunct2, THEN conjunct1]
  note B11 = B [THEN conjunct2, THEN conjunct2, THEN conjunct2, THEN conjunct2, THEN conjunct2,
                THEN conjunct2, THEN conjunct2, THEN conjunct2, THEN conjunct2, THEN conjunct2,
                THEN conjunct1]
  have st: "fst ?rq = ?st" "fst ?rs = ?st" by (simp_all only: q s fst_conv)
  have x4: "pathObjects_s (fst ?rq) = pathObjects_s sample_state"
    using A1 by (simp only: st)
  have x5: "pathObjects_s (fst ?rs) = pathObjects_s sample_state"
    using B2 by (simp only: st)
  have x6: "fst (resolveRequestModelSchema_store sample_ext sample_engine ?off sample_state
                   put_request) = sample_state"
    by (simp only: qo fst_conv)
  have x6': "sample_state = sample_state \<and> sample_state = sample_state"
    using A5 [THEN mp, OF off] .
  have x7: "fst (resolveResponseModelSchema_store sample_ext ?off sample_state get_request
                   (Some 200)) = sample_state"
    by (simp only: so fst_conv)
  have x7': "sample_state = sample_state \<and> sample_state = sample_state"
    using B5 [THEN mp, OF off] .
  have l0: "0 < length (heap sample_state)" "2 < length (heap sample_state)"
    by (simp_all add: l)
  have n01: "(0::nat) \<noteq> 1" "(2::nat) \<noteq> 1" by simp_all
  have x8: "heap (fst ?rq) ! 0 = sample_heap ! 0"
    using A6' [THEN mp, OF conjI [OF l0(1) fq' [OF n01(1)]]]
    by (simp only: st h)
  have x9: "heap (fst ?rq) ! 2 = sample_heap ! 2"
    using A6 [THEN mp, OF conjI [OF l0(2) fq' [OF n01(2)]]]
    by (simp only: st h)
  have x10: "heap (fst ?rs) ! 2 = sample_heap ! 2"
    using B7 [THEN mp, OF conjI [OF l0(2) fs' [OF n01(2)]]]
    by (simp only: st h)
  have ne: "SRef 0 \<noteq> SRef 1" by simp
  have xin: "Name ''size'' \<in> set (s_keys (heap sample_state) (SRef 1))"
    by (simp only: keys) simp
  have ant: "allowNullable sample_options
               \<and> s_get (heap sample_state) (SRef 0) (Name ''properties'') = Inr (SRef 1)
               \<and> SRef 0 \<noteq> SRef 1
               \<and> Name ''size'' \<in> set (s_keys (heap sample_state) (SRef 1))"
    by (intro conjI) (rule on pr ne xin)+
  have nm': "\<not> marked_nullable (heap sample_state)
                 (cell_get (heap sample_state ! 1) (Name ''size''))"
    unfolding h by (rule nm)
  note Aq = A8 [THEN mp, OF conjI [OF mq fq], THEN conjunct2, THEN mp, OF ant]
  note Bs = B9 [THEN mp, OF conjI [OF ms fs], THEN conjunct2, THEN mp, OF ant]
  note An = resolution_frame
              [where pathObj = "SRef 4" and schema = "SRef 0" and p = 1
                 and x = "Name ''name''", OF q qs,
               THEN conjunct2, THEN conjunct2, THEN conjunct2, THEN conjunct2, THEN conjunct2,
               THEN conjunct2, THEN conjunct2, THEN conjunct1]
  have xin': "Name ''name'' \<in> set (s_keys (heap sample_state) (SRef 1))"
    by (simp only: keys) simp
  have ant': "allowNullable sample_options
               \<and> s_get (heap sample_state) (SRef 0) (Name ''properties'') = Inr (SRef 1)
               \<and> SRef 0 \<noteq> SRef 1
               \<and> Name ''name'' \<in> set (s_keys (heap sample_state) (SRef 1))"
    by (intro conjI) (rule on pr ne xin')+
  have mk': "marked_nullable (heap sample_state)
               (cell_get (heap sample_state ! 1) (Name ''name''))
             \<and> (Inr (SRef 0) :: error + sval) = Inr (SRef 0)"
    unfolding h using mk by simp
  have xn: "\<exists>n. length (heap sample_state) \<le> n
          \<and> n + 2 < length (heap (fst ?rq))
          \<and> cell_get (heap (fst ?rq) ! 1) (Name ''name'') = SRef (n + 2)
          \<and> heap (fst ?rq) ! n = CObj [(Name ''type'', SStr ''null'')]
          \<and> heap (fst ?rq) ! (n + 1)
              = CArr [cell_get (heap sample_state ! 1) (Name ''name''), SRef n]
          \<and> heap (fst ?rq) ! (n + 2) = CObj [(Name ''oneOf'', SRef (n + 1))]"
    using An [THEN mp, OF conjI [OF mq fq], THEN conjunct2, THEN mp, OF ant',
              THEN conjunct2, THEN conjunct2, THEN conjunct2, THEN mp, OF mk']
    by (simp only: st)
  have x11: "cell_get (heap (fst ?rq) ! 1) (Name ''size'') = SRef 3"
    using Aq [THEN conjunct2, THEN conjunct2, THEN conjunct1, THEN mp, OF nm'] sz
    by (simp only: st h)
  have x12: "cell_get (heap (fst ?rs) ! 1) (Name ''size'') = SRef 3"
    using Bs [THEN conjunct2, THEN conjunct2, THEN conjunct1, THEN mp, OF nm'] sz
    by (simp only: st h)
  have x13: "s_keys (heap (fst ?rs)) (SRef 1) = [Name ''name'', Name ''size'']"
    using Bs [THEN conjunct2, THEN conjunct1] keys
    by (simp only: st)
  have hq: "\<forall>pathObj schema p.
            matchUrlWithSchema_store sample_ext (pathObjects_s sample_state)
              (originalUrl put_request) = Inr pathObj
            \<and> request_schema_store sample_ext sample_engine (heap sample_state) pathObj
                (toLowerCase (method' put_request)) = Inr schema
            \<and> s_get (heap sample_state) schema (Name ''properties'') = Inr (SRef p)
            \<longrightarrow> SRef p \<notin> set (s_walk (heap sample_state) pathObj (request_location put_request))
              \<and> (\<forall>a. s_lookup (heap sample_state) pathObj
                        [Name (toLowerCase (method' put_request)), Name ''parameters'',
                         Name ''length'']
                      \<noteq> Inr (SRef a))"
  proof (intro allI impI, elim conjE)
    fix pathObj schema p
    assume m: "matchUrlWithSchema_store sample_ext (pathObjects_s sample_state)
                 (originalUrl put_request) = Inr pathObj"
      and f: "request_schema_store sample_ext sample_engine (heap sample_state) pathObj
                (toLowerCase (method' put_request)) = Inr schema"
      and g: "s_get (heap sample_state) schema (Name ''properties'') = Inr (SRef p)"
    from m mq have po: "pathObj = SRef 4" by simp
    from f fq po have sc: "schema = SRef 0" by simp
    from g pr sc have p1: "p = 1" by (simp del: s_get.simps)
    show "SRef p \<notin> set (s_walk (heap sample_state) pathObj (request_location put_request))
              \<and> (\<forall>a. s_lookup (heap sample_state) pathObj
                        [Name (toLowerCase (method' put_request)), Name ''parameters'',
                         Name ''length'']
                      \<noteq> Inr (SRef a))"
      unfolding po p1 h using wq lq
      by (simp del: s_get.simps s_walk.simps s_lookup.simps)
  qed
  have hs: "\<forall>pathObj schema p.
            matchUrlWithSchema_store sample_ext (pathObjects_s sample_state)
              (originalUrl get_request) = Inr pathObj
            \<and> response_schema_store (heap sample_state) pathObj
                (toLowerCase (method' get_request)) (Some 200) = Inr schema
            \<and> s_get (heap sample_state) schema (Name ''properties'') = Inr (SRef p)
            \<longrightarrow> SRef p \<notin> set (s_walk (heap sample_state) pathObj
                                  (response_location get_request (Some 200)))"
  proof (intro allI impI, elim conjE)
    fix pathObj schema p
    assume m: "matchUrlWithSchema_store sample_ext (pathObjects_s sample_state)
                 (originalUrl get_request) = Inr pathObj"
      and f: "response_schema_store (heap sample_state) pathObj
                (toLowerCase (method' get_request)) (Some 200) = Inr schema"
      and g: "s_get (heap sample_state) schema (Name ''properties'') = Inr (SRef p)"
    from m ms have po: "pathObj = SRef 4" by simp
    from f fs po have sc: "schema = SRef 0" by simp
    from g pr sc have p1: "p = 1" by (simp del: s_get.simps)
    show "SRef p \<notin> set (s_walk (heap sample_state) pathObj
                                  (response_location get_request (Some 200)))"
      unfolding po p1 h using ws
      by (simp del: s_get.simps s_walk.simps s_lookup.simps)
  qed
  have x14: "resolveRequestModelSchema_store sample_ext sample_engine sample_options
               (fst ?rq) put_request = ?rq"
    using A10 [THEN mp, OF hq] by (simp only: q fst_conv)
  have x15: "resolveResponseModelSchema_store sample_ext sample_options (fst ?rs) get_request
               (Some 200) = ?rs"
    using B11 [THEN mp, OF hs] by (simp only: s fst_conv)
  have ms': "matchUrlWithSchema_store sample_ext (pathObjects_s ?st) (originalUrl get_request)
               = Inr (SRef 4)"
    by (simp add: store_simps sample_simps request_simps)
  have fs': "response_schema_store (heap ?st) (SRef 4) (toLowerCase (method' get_request))
               (Some 200) = Inr (SRef 0)"
    by (simp add: store_simps sample_simps request_simps)
  have nself: "\<forall>p. s_get (heap sample_state) (SRef 0) (Name ''properties'') = Inr (SRef p) \<longrightarrow>
                 SRef 0 \<noteq> SRef p"
    unfolding pr by simp
  have x19: "resolveResponseModelSchema_store sample_ext sample_options (fst ?rq) get_request
               (Some 200) = (fst ?rq, Inr (SRef 0))"
    using resolution_frame
            [where pathObj = "SRef 4" and schema = "SRef 0" and req' = get_request
               and sc' = "Some 200" and pathObj' = "SRef 4", OF q qs,
             THEN conjunct2, THEN conjunct2, THEN conjunct2, THEN conjunct2, THEN conjunct2,
             THEN conjunct2, THEN conjunct2, THEN conjunct2, THEN conjunct2, THEN conjunct2,
             THEN conjunct2, THEN conjunct2, THEN conjunct2, THEN conjunct2, THEN conjunct1,
             THEN mp, OF conjI [OF mq conjI [OF fq conjI [OF nself conjI [OF ms' fs']]]]]
    by (simp only: st)
  have x16: "fst (validateRequest_store sample_ext sample_engine sample_options sample_state
                    put_request sample_response) = fst ?rq"
    using A12 by (simp only: st)
  have cp: "ajv_compile_store sample_engine (heap ?st) (SRef 0)
              = Some (sample_validator (fst (decorateWithNullable item_schema)))"
    by (simp add: sample_engine_def sample_heap_def decorateWithNullable_def item_schema_def
        nullable_choice_def value_of_ref sample_compile_def)
  have vb: "sample_validator (fst (decorateWithNullable item_schema)) (body put_request)
              = (False, JArr [JStr ''invalid''])"
    by (simp add: sample_validator_def decorateWithNullable_def item_schema_def
        nullable_choice_def request_simps type_holds_def type_matches_def)
  have fm: "failure_message put_request
              = JObj [(Name ''message'',
                  JStr ''Response schema validation failed for PUT/items/7?verbose=1'')]"
    by (simp add: failure_message_def request_simps)
  have nf: "\<not> requestValidationFn sample_options" by (simp add: sample_options_def)
  have x17: "snd (validateRequest_store sample_ext sample_engine sample_options sample_state
             put_request sample_response)
       = (sample_response\<lparr>statusCode := Some 400\<rparr>,
          [Status 400,
           Json (JObj [(Name ''message'',
                  JStr ''Response schema validation failed for PUT/items/7?verbose=1'')])],
          None)"
    unfolding validateRequest_store_def q using cp vb fm nf by simp
  have ec: "end_collect sample_ext (writtenData sample_capture) (Buffer ''2'')
              = ([Buffer ''4'', Buffer ''2''], Inr (Buffer ''42''))"
    by (simp add: hook_simps)
  have nd: "\<not> debug_throws sample_ext (Buffer ''2'') None"
    by (simp add: hook_simps sample_simps)
  have dc: "decode sample_ext (Buffer ''42'') None = Inr (JNum 42)"
    by (simp add: hook_simps sample_simps)
  have rr: "hooked_response\<lparr>write_op := origWrite sample_capture,
             end_op := origEnd sample_capture\<rparr> = sample_response"
    by (simp add: hook_simps sample_simps)
  have sc200: "statusCode sample_response = Some 200" by (simp add: sample_response_def)
  have "fst (end_hook_store sample_ext sample_engine sample_options sample_state get_request
             hooked_response sample_capture (Buffer ''2'') None)
          = fst (check_response_store sample_ext sample_engine sample_options sample_state
                   get_request sample_response (JNum 42) None)"
    unfolding end_hook_store_def ec using nd dc rr by (simp split: prod.splits)
  then have x18: "fst (end_hook_store sample_ext sample_engine sample_options sample_state
             get_request hooked_response sample_capture (Buffer ''2'') None) = fst ?rs"
    by (simp only: check_response_store_state sc200)
  have q': "?rq = (?st, Inr (SRef 0))" by (rule q)
  show ?thesis
    by (intro conjI) (rule q s x1 x2 x3 x4 x5 x6 x7 x8 x9 x10 mk nm xn x11 x12 x13 wq ws x14 x15
        x19 x16 x17 x18)+
qed

end
